theory Spec2Isabelle
  imports Main "HOL-Library.Multiset"
begin

section \<open>Values shared by both entry points\<close>

text \<open>
  A Go \<open>error\<close> value is represented by the message its \<open>Error()\<close> method returns;
  a nil error is \<open>None\<close> of \<open>go_error option\<close>.
\<close>

datatype go_error = Errorf string

fun Error :: "go_error \<Rightarrow> string" where
  "Error (Errorf m) = m"

text \<open>What \<open>%s\<close> prints for an \<open>error\<close> variable: its message, or Go's marker for nil.\<close>

fun fmt_err :: "go_error option \<Rightarrow> string" where
  "fmt_err None = ''%!s(<nil>)''"
| "fmt_err (Some e) = Error e"

text \<open>The struct \<open>Platform\<close> (its declaration is not among the sources; the fields
  \<open>OS\<close> and \<open>Arch\<close> are the ones \<open>BuildToolchain\<close> reads).\<close>

record Platform =
  OS :: string
  Arch :: string

text \<open>Modelled from the spec: the method \<open>Platform.String\<close> is missing from the sources;
  the canonical string form of a platform is \<open>"OS/Arch"\<close>.\<close>

definition Platform_String :: "Platform \<Rightarrow> string" where
  "Platform_String p = OS p @ ''/'' @ Arch p"

text \<open>The struct literal \<open>CompileOpts\<close> built by every worker, with the field \<open>Gcflags\<close>
  that \<open>envOverride\<close> writes.\<close>

record CompileOpts =
  PackagePath :: string
  Platform :: Platform
  OutputTpl :: string
  Ldflags :: string
  Gcflags :: string
  Tags :: string
  Cgo :: bool
  Rebuild :: bool
  GoCmd :: string

text \<open>The package-level variables that \<open>flags.Parse\<close> fills. \<open>platformFlag\<close> is
  represented by its method \<open>Platforms\<close>, \<open>Args\<close> is \<open>flags.Args()\<close>.\<close>

record Flags =
  buildToolchain :: bool
  ldflags :: string
  outputTpl :: string
  parallel :: int
  platformFlag :: "Platform list \<Rightarrow> Platform list"
  tags :: string
  verbose :: bool
  flagGcflags :: string
  flagCgo :: bool
  flagRebuild :: bool
  flagListOSArch :: bool
  flagGoCmd :: string
  Args :: "string list"

text \<open>One run of the build script \<open>make.bash\<close> as \<open>BuildToolchain\<close> sees it:
  whether \<open>cmd.Start\<close> fails, the chunks the process writes (tagged with the stream,
  \<open>True\<close> for stderr), and whether \<open>cmd.Wait\<close> reports a failure.\<close>

record script_run =
  start_err :: "go_error option"
  writes :: "(bool \<times> string) list"
  wait_err :: "go_error option"

text \<open>
  Everything the two functions obtain from outside the sources under study: the Go
  runtime, the process environment and the collaborators \<open>GoVersion\<close>,
  \<open>GoVersionParts\<close>, \<open>GoRoot\<close>, \<open>SupportedPlatforms\<close>, \<open>GoMainDirs\<close>,
  \<open>mainListOSArch\<close>, \<open>envOverride\<close> and \<open>GoCrossCompile\<close>. They are parameters of the
  model. \<open>envOverride W old p key\<close> is the value left in the field after the call,
  \<open>GoCrossCompile\<close> returns both of its results.
\<close>

record World =
  Parse :: "go_error + Flags"
  NumCPU :: int
  GOOS :: string
  LookPath :: "string \<Rightarrow> go_error option"
  GoVersionParts :: "go_error + int list"
  GoVersion :: "go_error + string"
  GoRoot :: "go_error + string"
  SupportedPlatforms :: "string \<Rightarrow> Platform list"
  GoMainDirs :: "string list \<Rightarrow> string \<Rightarrow> go_error + string list"
  mainListOSArch :: "string \<Rightarrow> go_error option"
  envOverride :: "string \<Rightarrow> Platform \<Rightarrow> string \<Rightarrow> string"
  GoCrossCompile :: "CompileOpts \<Rightarrow> string \<times> go_error option"
  PathSeparator :: char
  script :: "Platform \<Rightarrow> script_run"

text \<open>What a run does to the outside, in order: lines written to the two console
  streams and calls of the collaborators.\<close>

datatype effect = Stdout string | Stderr string | Called string

text \<open>The goroutines of a dispatch are interleaved by a schedule: a list of events, each
  one atomic step of the main goroutine, of the worker with the given index, or of the
  output reader that the verbose worker with that index started.\<close>

datatype event = Main | Worker nat | Reader nat

subsection \<open>Formatting\<close>

function show_nat :: "nat \<Rightarrow> string" where
  "show_nat n = (if n < 10 then [''0123456789'' ! n]
                 else show_nat (n div 10) @ [''0123456789'' ! (n mod 10)])"
  by pat_completeness auto
termination
  by (relation "measure (\<lambda>n. n)") auto

declare show_nat.simps [simp del]

definition show_int :: "int \<Rightarrow> string" where
  "show_int i = (if i < 0 then ''-'' @ show_nat (nat (- i)) else show_nat (nat i))"

text \<open>The verb \<open>%15s\<close>: right-justified in a field of 15 characters.\<close>

definition pad15 :: "string \<Rightarrow> string" where
  "pad15 s = replicate (15 - length s) CHR '' '' @ s"

section \<open>The parallelism factor\<close>

text \<open>Lines 210 to 225 of \<open>CrossCompile\<close>: the value of \<open>parallel\<close> after the block, from
  the flag's value, \<open>runtime.NumCPU()\<close> and \<open>runtime.GOOS\<close>. \<open>cpus - 1\<close> is computed only
  for \<open>cpus \<ge> 2\<close>, so Go's machine integer does not wrap there.\<close>

definition resolveParallel :: "int \<Rightarrow> int \<Rightarrow> string \<Rightarrow> int" where
  "resolveParallel par cpus goos =
     (if par \<le> 0 then
        (let p = (if cpus < 2 then 1 else cpus - 1)
         in if goos = ''solaris'' then 3 else p)
      else par)"

section \<open>The toolchain build: \<open>mainBuildToolchain\<close> and \<open>BuildToolchain\<close>\<close>

text \<open>The condition of line 29, \<open>versionParts[0] >= 1 && versionParts[1] >= 5\<close>. An index
  out of range panics (\<open>None\<close>); \<open>&&\<close> reads the second element only when the first
  comparison holds.\<close>

definition version_gate :: "int list \<Rightarrow> bool option" where
  "version_gate versionParts =
     (case versionParts of
        [] \<Rightarrow> None
      | major # rest \<Rightarrow>
          if major \<ge> 1 then
            (case rest of [] \<Rightarrow> None | minor # _ \<Rightarrow> Some (minor \<ge> 5))
          else Some False)"

text \<open>The program counter of the goroutine started at line 71. It calls
  \<open>BuildToolchain\<close>, whose deferred calls run in reverse order of registration when it
  returns (the drain of lines 131 to 134, the release of line 96, \<open>wg.Done\<close> of line 94),
  and then appends the error under \<open>errorLock\<close>.\<close>

datatype bt_pc =
    BT_Acquire
  | BT_Setup
  | BT_Start
  | BT_Wait
  | BT_CloseW
  | BT_AwaitDone
  | BT_Release
  | BT_WgDone
  | BT_ErrLock
  | BT_ErrAppend
  | BT_ErrUnlock
  | BT_Exited

text \<open>The locals of one such goroutine: \<open>err\<close> is the value \<open>BuildToolchain\<close> returns,
  \<open>pending\<close> what the started process has yet to write, \<open>stdout_buf\<close> and \<open>stderr_buf\<close>
  the two \<open>bytes.Buffer\<close>s, \<open>pipe\<close> the bytes written to \<open>w\<close> that the reader has not
  taken yet, \<open>w_closed\<close> whether \<open>w.Close()\<close> has run, \<open>reading\<close> whether the reader
  goroutine of line 125 is running, \<open>doneCh\<close> whether that channel has been closed.\<close>

record bt_worker =
  bpc :: bt_pc
  bplatform :: Platform
  berr :: "go_error option"
  pending :: "(bool \<times> string) list"
  stdout_buf :: string
  stderr_buf :: string
  pipe :: string
  w_closed :: bool
  reading :: bool
  doneCh :: bool

datatype bt_main_pc =
    BT_Loop "Platform list"
  | BT_Read
  | BT_Returned "go_error option"

text \<open>The shared variables of \<open>mainBuildToolchain\<close> from line 63 on: \<open>bt_semaphore\<close> is
  the number of values in the channel and \<open>bt_capacity\<close> its capacity, \<open>bt_wg\<close> the
  counter of the wait group, \<open>bt_err\<close> the function's own variable \<open>err\<close>.\<close>

record bt_state =
  bt_main :: bt_main_pc
  bt_workers :: "bt_worker list"
  bt_semaphore :: nat
  bt_capacity :: nat
  bt_wg :: int
  bt_errorLock :: bool
  bt_errs :: "go_error list"
  bt_err :: "go_error option"
  bt_trace :: "effect list"

definition bt_spawn :: "Platform \<Rightarrow> bt_worker" where
  "bt_spawn p = \<lparr>bpc = BT_Acquire, bplatform = p, berr = None, pending = [],
     stdout_buf = [], stderr_buf = [], pipe = [], w_closed = False, reading = False,
     doneCh = False\<rparr>"

definition scriptName :: "World \<Rightarrow> string" where
  "scriptName W = (if GOOS W = ''windows'' then ''make.bat'' else ''make.bash'')"

text \<open>Where \<open>BuildToolchain\<close> continues when it returns: the first deferred call.\<close>

definition bt_deferred :: "bool \<Rightarrow> bt_pc" where
  "bt_deferred verb = (if verb then BT_CloseW else BT_Release)"

text \<open>One chunk written by the process. Without \<open>-verbose\<close> the streams go to their
  buffers; with it, stdout goes to the pipe and stderr to its buffer and the pipe
  (\<open>io.MultiWriter\<close>).\<close>

definition bt_write :: "bool \<Rightarrow> bool \<times> string \<Rightarrow> bt_worker \<Rightarrow> bt_worker" where
  "bt_write verb c w =
     (if verb then
        (if fst c then w\<lparr>stderr_buf := stderr_buf w @ snd c, pipe := pipe w @ snd c\<rparr>
         else w\<lparr>pipe := pipe w @ snd c\<rparr>)
      else
        (if fst c then w\<lparr>stderr_buf := stderr_buf w @ snd c\<rparr>
         else w\<lparr>stdout_buf := stdout_buf w @ snd c\<rparr>))"

text \<open>One atomic step of a worker with locals \<open>w\<close> on the shared state \<open>s\<close>: its
  new locals and the new shared state, or \<open>None\<close> when the goroutine is blocked (a
  full channel, a held lock, an open \<open>doneCh\<close>), has exited, or would panic.\<close>

definition bt_local ::
  "World \<Rightarrow> bool \<Rightarrow> bt_worker \<Rightarrow> bt_state \<Rightarrow> (bt_worker \<times> bt_state) option" where
  "bt_local W verb w s =
     (let p = Platform_String (bplatform w) in
      case bpc w of
        BT_Acquire \<Rightarrow>
          if bt_semaphore s < bt_capacity s
          then Some (w\<lparr>bpc := BT_Setup\<rparr>, s\<lparr>bt_semaphore := bt_semaphore s + 1\<rparr>)
          else None
      | BT_Setup \<Rightarrow>
          Some (w\<lparr>bpc := BT_Start, reading := verb\<rparr>,
                s\<lparr>bt_trace := bt_trace s @ [Stdout (''--> Toolchain: '' @ p @ ''\<newline>'')]\<rparr>)
      | BT_Start \<Rightarrow>
          (case start_err (script W (bplatform w)) of
             Some e \<Rightarrow>
               Some (w\<lparr>bpc := bt_deferred verb,
                       berr := Some (Errorf (''Error building '' @ [CHR 0x27] @ p @ [CHR 0x27]
                                              @ '': '' @ Error e))\<rparr>,
                     s\<lparr>bt_trace := bt_trace s @ [Called (scriptName W)]\<rparr>)
           | None \<Rightarrow>
               Some (w\<lparr>bpc := BT_Wait, pending := writes (script W (bplatform w))\<rparr>,
                     s\<lparr>bt_trace := bt_trace s @ [Called (scriptName W)]\<rparr>))
      | BT_Wait \<Rightarrow>
          (case pending w of
             c # cs \<Rightarrow> Some ((bt_write verb c w)\<lparr>pending := cs\<rparr>, s)
           | [] \<Rightarrow>
               (case wait_err (script W (bplatform w)) of
                  Some e \<Rightarrow>
                    Some (w\<lparr>bpc := bt_deferred verb,
                            berr := Some (Errorf (''Error building '' @ [CHR 0x27] @ p @ [CHR 0x27]
                                     @ ''.\<newline>\<newline>Stdout: '' @ stdout_buf w
                                     @ ''\<newline>\<newline>Stderr: '' @ stderr_buf w @ ''\<newline>''))\<rparr>, s)
                | None \<Rightarrow> Some (w\<lparr>bpc := bt_deferred verb, berr := None\<rparr>, s)))
      | BT_CloseW \<Rightarrow> Some (w\<lparr>bpc := BT_AwaitDone, w_closed := True\<rparr>, s)
      | BT_AwaitDone \<Rightarrow> if doneCh w then Some (w\<lparr>bpc := BT_Release\<rparr>, s) else None
      | BT_Release \<Rightarrow>
          if bt_semaphore s = 0 then None
          else Some (w\<lparr>bpc := BT_WgDone\<rparr>, s\<lparr>bt_semaphore := bt_semaphore s - 1\<rparr>)
      | BT_WgDone \<Rightarrow>
          if bt_wg s \<le> 0 then None
          else Some (w\<lparr>bpc := (if berr w \<noteq> None then BT_ErrLock else BT_Exited)\<rparr>,
                     s\<lparr>bt_wg := bt_wg s - 1\<rparr>)
      | BT_ErrLock \<Rightarrow>
          if bt_errorLock s then None
          else Some (w\<lparr>bpc := BT_ErrAppend\<rparr>, s\<lparr>bt_errorLock := True\<rparr>)
      | BT_ErrAppend \<Rightarrow>
          Some (w\<lparr>bpc := BT_ErrUnlock\<rparr>,
                s\<lparr>bt_errs := bt_errs s @ [Errorf (p @ '': '' @ fmt_err (berr w))]\<rparr>)
      | BT_ErrUnlock \<Rightarrow> Some (w\<lparr>bpc := BT_Exited\<rparr>, s\<lparr>bt_errorLock := False\<rparr>)
      | BT_Exited \<Rightarrow> None)"

text \<open>The step of worker \<open>i\<close> of the list: its locals are written back.\<close>

definition bt_worker_step :: "World \<Rightarrow> bool \<Rightarrow> nat \<Rightarrow> bt_state \<Rightarrow> bt_state option" where
  "bt_worker_step W verb i s =
     (if i \<ge> length (bt_workers s) then None
      else case bt_local W verb (bt_workers s ! i) s of
             None \<Rightarrow> None
           | Some (w', s') \<Rightarrow> Some (s'\<lparr>bt_workers := (bt_workers s)[i := w']\<rparr>))"

text \<open>The reader goroutine of lines 125 to 130 together with \<open>iochan.DelimReader\<close> (a
  library outside the repository: it reads up to each delimiter, passes on what is left
  at end of stream, then ends the range loop). One step prints one line; at end of
  stream the deferred \<open>close(doneCh)\<close> runs. \<open>None\<close> while it waits for more bytes.\<close>

definition bt_reader_local :: "bt_worker \<Rightarrow> bt_state \<Rightarrow> (bt_worker \<times> bt_state) option" where
  "bt_reader_local w s =
     (let p = Platform_String (bplatform w) in
      if \<not> reading w then None
      else if CHR 0x0A \<in> set (pipe w) then
        Some (w\<lparr>pipe := tl (dropWhile (\<lambda>c. c \<noteq> CHR 0x0A) (pipe w))\<rparr>,
              s\<lparr>bt_trace := bt_trace s @
                   [Stdout (p @ '': '' @ takeWhile (\<lambda>c. c \<noteq> CHR 0x0A) (pipe w) @ ''\<newline>'')]\<rparr>)
      else if \<not> w_closed w then None
      else if pipe w \<noteq> [] then
        Some (w\<lparr>pipe := []\<rparr>, s\<lparr>bt_trace := bt_trace s @ [Stdout (p @ '': '' @ pipe w)]\<rparr>)
      else Some (w\<lparr>reading := False, doneCh := True\<rparr>, s))"

definition bt_reader_step :: "nat \<Rightarrow> bt_state \<Rightarrow> bt_state option" where
  "bt_reader_step i s =
     (if i \<ge> length (bt_workers s) then None
      else case bt_reader_local (bt_workers s ! i) s of
             None \<Rightarrow> None
           | Some (w', s') \<Rightarrow> Some (s'\<lparr>bt_workers := (bt_workers s)[i := w']\<rparr>))"

text \<open>The main goroutine from line 69 on: one step per iteration of the loop
  (\<open>wg.Add(1)\<close> and the \<open>go\<close> statement), then \<open>wg.Wait()\<close>, which returns only when the
  counter is zero, then lines 82 to 90.\<close>

definition bt_main_step :: "bt_state \<Rightarrow> bt_state option" where
  "bt_main_step s =
     (case bt_main s of
        BT_Loop ps \<Rightarrow>
          (case ps of
             p # ps' \<Rightarrow>
               Some (s\<lparr>bt_main := BT_Loop ps', bt_wg := bt_wg s + 1,
                        bt_workers := bt_workers s @ [bt_spawn p]\<rparr>)
           | [] \<Rightarrow> if bt_wg s = 0 then Some (s\<lparr>bt_main := BT_Read\<rparr>) else None)
      | BT_Read \<Rightarrow>
          if length (bt_errs s) > 0
          then Some (s\<lparr>bt_main := BT_Returned (bt_err s),
                        bt_trace := bt_trace s
                          @ [Stderr (''\<newline>'' @ show_nat (length (bt_errs s)) @ '' errors occurred:\<newline>'')]
                          @ map (\<lambda>e. Stderr (Error e @ ''\<newline>'')) (bt_errs s)\<rparr>)
          else Some (s\<lparr>bt_main := BT_Returned None\<rparr>)
      | BT_Returned _ \<Rightarrow> None)"

fun bt_step :: "World \<Rightarrow> bool \<Rightarrow> event \<Rightarrow> bt_state \<Rightarrow> bt_state option" where
  "bt_step W verb Main s = bt_main_step s"
| "bt_step W verb (Worker i) s = bt_worker_step W verb i s"
| "bt_step W verb (Reader i) s = bt_reader_step i s"

fun bt_exec :: "World \<Rightarrow> bool \<Rightarrow> event list \<Rightarrow> bt_state \<Rightarrow> bt_state option" where
  "bt_exec W verb [] s = Some s"
| "bt_exec W verb (e # es) s =
     (case bt_step W verb e s of None \<Rightarrow> None | Some s' \<Rightarrow> bt_exec W verb es s')"

text \<open>The messages of lines 30 to 33, 50 to 51 and 59 to 61 (\<open>Println\<close> ends each line
  with a newline).\<close>

definition not_required_notice :: string where
  "not_required_notice =
     ''-build-toolchain is no longer required for Go 1.5 or later.\<newline>''
     @ ''You can start using Gox immediately!\<newline>''"

definition verbose_notice :: "effect list" where
  "verbose_notice =
     [Stdout ''Verbose mode enabled. Output from building each toolchain will be\<newline>'',
      Stdout ''outputted to stdout as they are built.\<newline>\<newline>'']"

definition serial_notice :: "effect list" where
  "serial_notice =
     [Stdout ''The toolchain build can't be parallelized because compiling a single\<newline>'',
      Stdout ''Go source directory can only be done for one platform at a time. Therefore,\<newline>'',
      Stdout ''the toolchain for each platform will be built one at a time.\<newline>\<newline>'']"

text \<open>Lines 17 to 68 of \<open>mainBuildToolchain\<close>: either it returns at once, or it panics
  on a version with too few parts, or it reaches the loop with the state built here.\<close>

datatype bt_entry =
    BT_Return "go_error option" "effect list"
  | BT_Panic "effect list"
  | BT_Dispatch bt_state

definition mainBuildToolchain_begin ::
  "World \<Rightarrow> int \<Rightarrow> (Platform list \<Rightarrow> Platform list) \<Rightarrow> bool \<Rightarrow> effect list \<Rightarrow> bt_entry" where
  "mainBuildToolchain_begin W par pf verb t0 =
     (let t1 = t0 @ [Called ''LookPath''] in
      (case LookPath W ''go'' of
        Some e \<Rightarrow>
          BT_Return (Some e)
            (t1 @ [Stderr ''You must have Go already built for your native platform\<newline>'',
                   Stderr ''and the `go` binary on the PATH to build toolchains.\<newline>''])
      | None \<Rightarrow>
         (let t2 = t1 @ [Called ''GoVersionParts''] in
          (case GoVersionParts W of
            Inl e \<Rightarrow> BT_Return (Some e) (t2 @ [Stderr (''error reading Go version: '' @ Error e)])
          | Inr versionParts \<Rightarrow>
              (case version_gate versionParts of
                 None \<Rightarrow> BT_Panic t2
               | Some short \<Rightarrow>
                   if short then
                     BT_Return None (t2 @ [Stderr not_required_notice])
                   else
                  (let t3 = t2 @ [Called ''GoVersion''] in
                   (case GoVersion W of
                     Inl e \<Rightarrow>
                       BT_Return (Some e) (t3 @ [Stderr (''error reading Go version: '' @ Error e)])
                   | Inr version \<Rightarrow>
                      (let t4 = t3 @ [Called ''GoRoot''] in
                       (case GoRoot W of
                         Inl e \<Rightarrow>
                           BT_Return (Some e)
                             (t4 @ [Stderr (''error finding GOROOT: '' @ Error e @ ''\<newline>'')])
                       | Inr root \<Rightarrow>
                          (let t5 = t4 @ (if verb then verbose_notice else []);
                               platforms = pf (SupportedPlatforms W version);
                               t6 = t5 @ [Called ''SupportedPlatforms'', Called ''Platforms''];
                               t7 = t6 @ (if par > 1 then serial_notice else []);
                               parallel' = (1::nat)
                           in BT_Dispatch
                                \<lparr>bt_main = BT_Loop platforms, bt_workers = [], bt_semaphore = 0,
                                 bt_capacity = parallel', bt_wg = 0, bt_errorLock = False,
                                 bt_errs = [], bt_err = None, bt_trace = t7\<rparr>))))))))))"

text \<open>The result of a call: what it returned, or a panic, with the effects it had.\<close>

datatype 'a outcome = Returned 'a "effect list" | Panicked "effect list"

text \<open>\<open>mainBuildToolchain\<close> under a schedule of its goroutines: \<open>None\<close> when the schedule
  asks a blocked goroutine to move or ends before the function has returned.\<close>

definition mainBuildToolchain ::
  "World \<Rightarrow> int \<Rightarrow> (Platform list \<Rightarrow> Platform list) \<Rightarrow> bool \<Rightarrow> effect list \<Rightarrow> event list
     \<Rightarrow> go_error option outcome option" where
  "mainBuildToolchain W par pf verb t0 sched =
     (case mainBuildToolchain_begin W par pf verb t0 of
        BT_Return e t \<Rightarrow> Some (Returned e t)
      | BT_Panic t \<Rightarrow> Some (Panicked t)
      | BT_Dispatch s0 \<Rightarrow>
          (case bt_exec W verb sched s0 of
             None \<Rightarrow> None
           | Some s \<Rightarrow>
               (case bt_main s of
                  BT_Returned e \<Rightarrow> Some (Returned e (bt_trace s))
                | _ \<Rightarrow> None)))"

section \<open>The build dispatch: \<open>CrossCompile\<close>\<close>

definition ErrNoValidPlatforms :: go_error where
  "ErrNoValidPlatforms =
     Errorf ([CHR 0x22] @ ''No valid platforms to build for. If you specified a value\<newline>''
       @ [CHR 0x09, CHR 0x09] @ ''for the 'os', 'arch', or 'osarch' flags, make sure you're\<newline>''
       @ [CHR 0x09, CHR 0x09] @ ''using a valid value.'')"

text \<open>The program counter of the goroutine of lines 275 to 307. \<open>CC_InFlight\<close> is the
  call of \<open>GoCrossCompile\<close>; the two deferred calls (\<open>errorLock.Unlock\<close>, registered on
  the failure path only, and \<open>wg.Done\<close>) run after line 306.\<close>

datatype cc_pc =
    CC_Acquire
  | CC_Start
  | CC_InFlight
  | CC_ErrLock
  | CC_ErrAppend
  | CC_MuLock
  | CC_BinAppend
  | CC_MuUnlock
  | CC_Release
  | CC_DeferUnlock
  | CC_DeferDone
  | CC_Exited

text \<open>The parameters and locals of one such goroutine.\<close>

record cc_worker =
  pc :: cc_pc
  path :: string
  platform :: Platform
  binName :: string
  werr :: "go_error option"

datatype cc_main_pc =
    CC_Loop "(Platform \<times> string) list"
  | CC_Read
  | CC_Returned "string list option" "go_error option"

text \<open>The shared variables of \<open>CrossCompile\<close> from line 265 on; \<open>cc_err\<close> is the
  function's own variable \<open>err\<close>, which the goroutines shadow with a local of theirs.\<close>

record cc_state =
  cc_main :: cc_main_pc
  cc_workers :: "cc_worker list"
  cc_semaphore :: nat
  cc_capacity :: nat
  cc_wg :: int
  cc_errorLock :: bool
  cc_mu :: bool
  cc_errors :: "string list"
  cc_binPaths :: "string list"
  cc_err :: "go_error option"
  cc_trace :: "effect list"

definition cc_spawn :: "Platform \<times> string \<Rightarrow> cc_worker" where
  "cc_spawn j = \<lparr>pc = CC_Acquire, path = snd j, platform = fst j, binName = [], werr = None\<rparr>"

text \<open>Lines 280 to 294: the options of one invocation. The literal leaves \<open>Gcflags\<close>
  empty; both flag fields then go through \<open>envOverride\<close>.\<close>

definition mk_opts :: "World \<Rightarrow> Flags \<Rightarrow> cc_worker \<Rightarrow> CompileOpts" where
  "mk_opts W F w =
     \<lparr>PackagePath = path w, Platform = platform w, OutputTpl = outputTpl F,
      Ldflags = envOverride W (ldflags F) (platform w) ''LDFLAGS'',
      Gcflags = envOverride W [] (platform w) ''GCFLAGS'',
      Tags = tags F, Cgo = flagCgo F, Rebuild = flagRebuild F, GoCmd = flagGoCmd F\<rparr>"

text \<open>One atomic step of a worker with locals \<open>w\<close> on the shared state \<open>s\<close>: its
  new locals and the new shared state, or \<open>None\<close> when the goroutine is blocked, has
  exited, or would panic.\<close>

definition cc_local ::
  "World \<Rightarrow> Flags \<Rightarrow> cc_worker \<Rightarrow> cc_state \<Rightarrow> (cc_worker \<times> cc_state) option" where
  "cc_local W F w s =
     (let p = Platform_String (platform w) in
      case pc w of
        CC_Acquire \<Rightarrow>
          if cc_semaphore s < cc_capacity s
          then Some (w\<lparr>pc := CC_Start\<rparr>, s\<lparr>cc_semaphore := cc_semaphore s + 1\<rparr>)
          else None
      | CC_Start \<Rightarrow>
          Some (w\<lparr>pc := CC_InFlight\<rparr>,
                s\<lparr>cc_trace := cc_trace s @
                     [Stdout (''--> '' @ pad15 p @ '': '' @ path w @ ''\<newline>''),
                      Called ''envOverride'', Called ''envOverride'', Called ''GoCrossCompile'']\<rparr>)
      | CC_InFlight \<Rightarrow>
          (let r = GoCrossCompile W (mk_opts W F w) in
           Some (w\<lparr>pc := (if snd r \<noteq> None then CC_ErrLock else CC_MuLock),
                   binName := fst r, werr := snd r\<rparr>, s))
      | CC_ErrLock \<Rightarrow>
          if cc_errorLock s then None
          else Some (w\<lparr>pc := CC_ErrAppend\<rparr>, s\<lparr>cc_errorLock := True\<rparr>)
      | CC_ErrAppend \<Rightarrow>
          Some (w\<lparr>pc := CC_MuLock\<rparr>,
                s\<lparr>cc_errors := cc_errors s @ [p @ '' error: '' @ fmt_err (werr w)]\<rparr>)
      | CC_MuLock \<Rightarrow>
          if cc_mu s then None
          else Some (w\<lparr>pc := CC_BinAppend\<rparr>, s\<lparr>cc_mu := True\<rparr>)
      | CC_BinAppend \<Rightarrow>
          Some (w\<lparr>pc := CC_MuUnlock\<rparr>,
                s\<lparr>cc_binPaths := cc_binPaths s @ [path w @ [PathSeparator W] @ binName w]\<rparr>)
      | CC_MuUnlock \<Rightarrow> Some (w\<lparr>pc := CC_Release\<rparr>, s\<lparr>cc_mu := False\<rparr>)
      | CC_Release \<Rightarrow>
          if cc_semaphore s = 0 then None
          else Some (w\<lparr>pc := (if werr w \<noteq> None then CC_DeferUnlock else CC_DeferDone)\<rparr>,
                     s\<lparr>cc_semaphore := cc_semaphore s - 1\<rparr>)
      | CC_DeferUnlock \<Rightarrow> Some (w\<lparr>pc := CC_DeferDone\<rparr>, s\<lparr>cc_errorLock := False\<rparr>)
      | CC_DeferDone \<Rightarrow>
          if cc_wg s \<le> 0 then None
          else Some (w\<lparr>pc := CC_Exited\<rparr>, s\<lparr>cc_wg := cc_wg s - 1\<rparr>)
      | CC_Exited \<Rightarrow> None)"

text \<open>The step of worker \<open>i\<close> of the list: its locals are written back.\<close>

definition cc_worker_step :: "World \<Rightarrow> Flags \<Rightarrow> nat \<Rightarrow> cc_state \<Rightarrow> cc_state option" where
  "cc_worker_step W F i s =
     (if i \<ge> length (cc_workers s) then None
      else case cc_local W F (cc_workers s ! i) s of
             None \<Rightarrow> None
           | Some (w', s') \<Rightarrow> Some (s'\<lparr>cc_workers := (cc_workers s)[i := w']\<rparr>))"

text \<open>The main goroutine from line 271 on: one step per iteration of the inner loop
  (\<open>wg.Add(1)\<close> and the \<open>go\<close> statement), then \<open>wg.Wait()\<close>, then lines 312 to 320.\<close>

definition cc_main_step :: "cc_state \<Rightarrow> cc_state option" where
  "cc_main_step s =
     (case cc_main s of
        CC_Loop js \<Rightarrow>
          (case js of
             j # js' \<Rightarrow>
               Some (s\<lparr>cc_main := CC_Loop js', cc_wg := cc_wg s + 1,
                        cc_workers := cc_workers s @ [cc_spawn j]\<rparr>)
           | [] \<Rightarrow> if cc_wg s = 0 then Some (s\<lparr>cc_main := CC_Read\<rparr>) else None)
      | CC_Read \<Rightarrow>
          if length (cc_errors s) > 0
          then Some (s\<lparr>cc_main := CC_Returned None (cc_err s),
                        cc_trace := cc_trace s
                          @ [Stderr (''\<newline>'' @ show_nat (length (cc_errors s)) @ '' errors occurred:\<newline>'')]
                          @ map (\<lambda>e. Stderr (''--> '' @ e @ ''\<newline>'')) (cc_errors s)\<rparr>)
          else Some (s\<lparr>cc_main := CC_Returned (Some (cc_binPaths s)) None\<rparr>)
      | CC_Returned _ _ \<Rightarrow> None)"

text \<open>The goroutines of \<open>CrossCompile\<close> start no reader.\<close>

fun cc_step :: "World \<Rightarrow> Flags \<Rightarrow> event \<Rightarrow> cc_state \<Rightarrow> cc_state option" where
  "cc_step W F Main s = cc_main_step s"
| "cc_step W F (Worker i) s = cc_worker_step W F i s"
| "cc_step W F (Reader i) s = None"

fun cc_exec :: "World \<Rightarrow> Flags \<Rightarrow> event list \<Rightarrow> cc_state \<Rightarrow> cc_state option" where
  "cc_exec W F [] s = Some s"
| "cc_exec W F (e # es) s =
     (case cc_step W F e s of None \<Rightarrow> None | Some s' \<Rightarrow> cc_exec W F es s')"

text \<open>Lines 204 to 270 of \<open>CrossCompile\<close>: an immediate return, the call of
  \<open>mainBuildToolchain\<close>, a panic of \<open>make\<close> on a negative capacity, or the state in which
  the loop starts. The loops run over the platforms first and the packages second.\<close>

datatype cc_entry =
    CC_Return "string list option" "go_error option" "effect list"
  | CC_Panic "effect list"
  | CC_Toolchain int Flags "effect list"
  | CC_Dispatch Flags cc_state

definition CrossCompile_begin :: "World \<Rightarrow> cc_entry" where
  "CrossCompile_begin W =
     (case Parse W of
        Inl e \<Rightarrow> CC_Return None (Some e) [Called ''Parse'']
      | Inr F \<Rightarrow>
         (let t0 = [Called ''Parse''];
              parallel' = resolveParallel (parallel F) (NumCPU W) (GOOS W)
          in
          if buildToolchain F then CC_Toolchain parallel' F t0
          else
           (let t1 = t0 @ [Called ''LookPath''] in
            (case LookPath W (flagGoCmd F) of
               Some e \<Rightarrow>
                 CC_Return None
                   (Some (Errorf (flagGoCmd F @ '' executable must be on the PATH\<newline>''))) t1
             | None \<Rightarrow>
                (let t2 = t1 @ [Called ''GoVersion''] in
                 (case GoVersion W of
                    Inl e \<Rightarrow>
                      CC_Return None (Some (Errorf (''error reading Go version: '' @ Error e))) t2
                  | Inr version \<Rightarrow>
                      if flagListOSArch F
                      then CC_Return None (mainListOSArch W version) (t2 @ [Called ''mainListOSArch''])
                      else
                       (let packages = (if length (Args F) = 0 then [''.''] else Args F);
                            t3 = t2 @ [Called ''GoMainDirs'']
                        in
                        (case GoMainDirs W packages (flagGoCmd F) of
                           Inl e \<Rightarrow>
                             CC_Return None
                               (Some (Errorf (''Error reading packages: '' @ Error e))) t3
                         | Inr mainDirs \<Rightarrow>
                            (let platforms = platformFlag F (SupportedPlatforms W version);
                                 t4 = t3 @ [Called ''SupportedPlatforms'', Called ''Platforms'']
                             in
                             if length platforms = 0
                             then CC_Return None (Some ErrNoValidPlatforms) t4
                             else
                              (let t5 = t4 @ [Stdout (''Number of parallel builds: ''
                                                @ show_int parallel' @ ''\<newline>\<newline>'')]
                               in
                               if parallel' < 0 then CC_Panic t5
                               else
                                 CC_Dispatch F
                                   \<lparr>cc_main = CC_Loop (List.product platforms mainDirs),
                                    cc_workers = [], cc_semaphore = 0,
                                    cc_capacity = nat parallel', cc_wg = 0,
                                    cc_errorLock = False, cc_mu = False, cc_errors = [],
                                    cc_binPaths = [], cc_err = None, cc_trace = t5\<rparr>))))))))))"

text \<open>\<open>CrossCompile\<close> under a schedule of its goroutines: the two results it returns, or
  a panic; \<open>None\<close> when the schedule asks a blocked goroutine to move or ends before the
  function has returned.\<close>

definition CrossCompile ::
  "World \<Rightarrow> event list \<Rightarrow> (string list option \<times> go_error option) outcome option" where
  "CrossCompile W sched =
     (case CrossCompile_begin W of
        CC_Return bs e t \<Rightarrow> Some (Returned (bs, e) t)
      | CC_Panic t \<Rightarrow> Some (Panicked t)
      | CC_Toolchain parallel' F t0 \<Rightarrow>
          (case mainBuildToolchain W parallel' (platformFlag F) (verbose F) t0 sched of
             None \<Rightarrow> None
           | Some (Returned e t) \<Rightarrow> Some (Returned (None, e) t)
           | Some (Panicked t) \<Rightarrow> Some (Panicked t))
      | CC_Dispatch F s0 \<Rightarrow>
          (case cc_exec W F sched s0 of
             None \<Rightarrow> None
           | Some s \<Rightarrow>
               (case cc_main s of
                  CC_Returned bs e \<Rightarrow> Some (Returned (bs, e) (cc_trace s))
                | _ \<Rightarrow> None)))"

section \<open>Predicates on the states of a dispatch\<close>

text \<open>The number of elements of a list with a property, as an integer, and the
  multiset of the values \<open>f x\<close> of the elements \<open>x\<close> with a property.\<close>

definition cnt :: "('a \<Rightarrow> bool) \<Rightarrow> 'a list \<Rightarrow> int" where
  "cnt P xs = int (length (filter P xs))"

definition contrib :: "('a \<Rightarrow> 'b) \<Rightarrow> ('a \<Rightarrow> bool) \<Rightarrow> 'a list \<Rightarrow> 'b multiset" where
  "contrib f P xs = mset (map f (filter P xs))"

text \<open>The lines a run wrote to the error stream.\<close>

definition is_Stderr :: "effect \<Rightarrow> bool" where
  "is_Stderr x = (case x of Stderr _ \<Rightarrow> True | _ \<Rightarrow> False)"

definition stderr_of :: "effect list \<Rightarrow> string list" where
  "stderr_of t = concat (map (\<lambda>x. case x of Stderr m \<Rightarrow> [m] | _ \<Rightarrow> []) t)"

subsection \<open>The toolchain build\<close>

text \<open>A worker holds a permit between line 95 and the deferred receive of line 96; it
  counts in the wait group until its deferred \<open>wg.Done\<close> has run.\<close>

definition bt_holding :: "bt_pc \<Rightarrow> bool" where
  "bt_holding c = (c \<in> {BT_Setup, BT_Start, BT_Wait, BT_CloseW, BT_AwaitDone, BT_Release})"

definition bt_before_done :: "bt_pc \<Rightarrow> bool" where
  "bt_before_done c = (c \<in> {BT_Acquire, BT_Setup, BT_Start, BT_Wait, BT_CloseW, BT_AwaitDone,
      BT_Release, BT_WgDone})"

definition bt_counts :: "bt_state \<Rightarrow> bool" where
  "bt_counts s \<longleftrightarrow>
     int (bt_semaphore s) = cnt (\<lambda>w. bt_holding (bpc w)) (bt_workers s)
     \<and> bt_wg s = cnt (\<lambda>w. bt_before_done (bpc w)) (bt_workers s)
     \<and> bt_semaphore s \<le> bt_capacity s
     \<and> bt_err s = None
     \<and> (\<forall>e. bt_main s = BT_Returned e \<longrightarrow> e = None)"

text \<open>The reader of a worker has drained the pipe to end of stream.\<close>

definition bt_drained :: "bt_worker \<Rightarrow> bool" where
  "bt_drained w \<longleftrightarrow> doneCh w \<and> pipe w = [] \<and> w_closed w \<and> \<not> reading w"

definition bt_wok :: "bool \<Rightarrow> bt_worker \<Rightarrow> bool" where
  "bt_wok verb w \<longleftrightarrow>
     (doneCh w \<longrightarrow> bt_drained w)
     \<and> (w_closed w \<longrightarrow> bpc w \<notin> {BT_Acquire, BT_Setup, BT_Start, BT_Wait, BT_CloseW})
     \<and> (verb \<and> bpc w \<notin> {BT_Acquire, BT_Setup, BT_Start, BT_Wait, BT_CloseW, BT_AwaitDone}
          \<longrightarrow> doneCh w)"

definition bt_inv :: "bool \<Rightarrow> bt_state \<Rightarrow> bool" where
  "bt_inv verb s \<longleftrightarrow> bt_counts s \<and> (\<forall>w\<in>set (bt_workers s). bt_wok verb w)"

text \<open>What the progress of the toolchain build rests on. A worker reaches the
  deferred drain only with \<open>-verbose\<close>, it waits for \<open>doneCh\<close> only after \<open>w.Close()\<close>,
  and from line 125 on its reader runs until it closes \<open>doneCh\<close>; the script of a
  worker in \<open>cmd.Wait\<close> was started; \<open>BuildToolchain\<close> has returned an error exactly
  when the script could not be started or failed.\<close>

definition bt_failed :: "World \<Rightarrow> Platform \<Rightarrow> bool" where
  "bt_failed W p \<longleftrightarrow> start_err (script W p) \<noteq> None \<or> wait_err (script W p) \<noteq> None"

definition bt_live :: "World \<Rightarrow> bool \<Rightarrow> bt_worker \<Rightarrow> bool" where
  "bt_live W verb w \<longleftrightarrow>
     (bpc w \<in> {BT_CloseW, BT_AwaitDone} \<longrightarrow> verb)
     \<and> (bpc w = BT_AwaitDone \<longrightarrow> w_closed w)
     \<and> (verb \<and> bpc w \<notin> {BT_Acquire, BT_Setup} \<longrightarrow> reading w \<or> doneCh w)
     \<and> (bpc w = BT_Wait \<longrightarrow> start_err (script W (bplatform w)) = None)
     \<and> (bpc w \<notin> {BT_Acquire, BT_Setup, BT_Start, BT_Wait} \<longrightarrow>
           (berr w \<noteq> None) = bt_failed W (bplatform w))"

text \<open>The platforms the main goroutine has yet to start a worker for.\<close>

definition bt_pending :: "bt_main_pc \<Rightarrow> Platform list" where
  "bt_pending m = (case m of BT_Loop ps \<Rightarrow> ps | _ \<Rightarrow> [])"

text \<open>\<open>errorLock\<close> is held by a worker between lines 73 and 76, the channel has room
  for a value, and there is one worker for each platform the loop has passed.\<close>

definition bt_locks :: "World \<Rightarrow> bool \<Rightarrow> Platform list \<Rightarrow> bt_state \<Rightarrow> bool" where
  "bt_locks W verb ps s \<longleftrightarrow>
     (bt_errorLock s \<longrightarrow> (\<exists>w\<in>set (bt_workers s). bpc w \<in> {BT_ErrAppend, BT_ErrUnlock}))
     \<and> 0 < bt_capacity s
     \<and> (\<forall>w\<in>set (bt_workers s). bt_live W verb w)
     \<and> map bplatform (bt_workers s) @ bt_pending (bt_main s) = ps"

text \<open>The number of steps the goroutines of the toolchain build have left at most: a
  step for each chunk the script writes and one for each byte the reader may have to
  print, on top of the steps of the worker itself.\<close>

definition script_size :: "(bool \<times> string) list \<Rightarrow> nat" where
  "script_size cs = sum_list (map (\<lambda>c. Suc (length (snd c))) cs)"

fun bt_rank :: "bt_pc \<Rightarrow> nat" where
  "bt_rank BT_Acquire = 14"
| "bt_rank BT_Setup = 13"
| "bt_rank BT_Start = 11"
| "bt_rank BT_Wait = 10"
| "bt_rank BT_CloseW = 9"
| "bt_rank BT_AwaitDone = 8"
| "bt_rank BT_Release = 7"
| "bt_rank BT_WgDone = 6"
| "bt_rank BT_ErrLock = 5"
| "bt_rank BT_ErrAppend = 4"
| "bt_rank BT_ErrUnlock = 3"
| "bt_rank BT_Exited = 0"

definition bt_todo :: "World \<Rightarrow> bt_worker \<Rightarrow> nat" where
  "bt_todo W w = bt_rank (bpc w)
     + (if bpc w \<in> {BT_Acquire, BT_Setup, BT_Start}
        then script_size (writes (script W (bplatform w))) else 0)
     + script_size (pending w) + length (pipe w) + (if reading w then 1 else 0)"

fun bt_main_rank :: "World \<Rightarrow> bt_main_pc \<Rightarrow> nat" where
  "bt_main_rank W (BT_Loop ps) =
     sum_list (map (\<lambda>p. 15 + script_size (writes (script W p))) ps) + 2"
| "bt_main_rank W BT_Read = 1"
| "bt_main_rank W (BT_Returned e) = 0"

definition bt_measure :: "World \<Rightarrow> bt_state \<Rightarrow> nat" where
  "bt_measure W s = bt_main_rank W (bt_main s) + sum_list (map (bt_todo W) (bt_workers s))"

text \<open>\<open>mainBuildToolchain\<close> has returned and every goroutine it started has ended.\<close>

definition bt_done :: "bt_state \<Rightarrow> bool" where
  "bt_done s \<longleftrightarrow> (\<exists>e. bt_main s = BT_Returned e) \<and> (\<forall>w\<in>set (bt_workers s). bpc w = BT_Exited)"

text \<open>All permits of the toolchain build are back: there is a worker for each platform
  of the list, each has ended, with an error exactly when its script failed, and the
  channel is empty.\<close>

definition bt_released :: "World \<Rightarrow> Platform list \<Rightarrow> bt_state \<Rightarrow> bool" where
  "bt_released W ps s \<longleftrightarrow>
     map bplatform (bt_workers s) = ps
     \<and> (\<forall>w\<in>set (bt_workers s). bpc w = BT_Exited \<and> (berr w \<noteq> None) = bt_failed W (bplatform w))
     \<and> bt_semaphore s = 0"

text \<open>The state of the goroutines of \<open>mainBuildToolchain\<close> after a schedule, and what
  a claim looks at in it: where the main goroutine is, where the workers are, and the
  list \<open>errs\<close>.\<close>

definition bt_run ::
  "World \<Rightarrow> int \<Rightarrow> (Platform list \<Rightarrow> Platform list) \<Rightarrow> bool \<Rightarrow> effect list \<Rightarrow> event list
     \<Rightarrow> bt_state option" where
  "bt_run W par pf verb t0 sched =
     (case mainBuildToolchain_begin W par pf verb t0 of
        BT_Dispatch s0 \<Rightarrow> bt_exec W verb sched s0
      | _ \<Rightarrow> None)"

definition bt_view :: "bt_state \<Rightarrow> bt_main_pc \<times> bt_pc list \<times> go_error list" where
  "bt_view s = (bt_main s, map bpc (bt_workers s), bt_errs s)"

subsection \<open>The build dispatch\<close>

text \<open>A worker holds a permit between line 277 and line 306; it counts in the wait
  group until it has exited.\<close>

definition cc_holding :: "cc_pc \<Rightarrow> bool" where
  "cc_holding c = (c \<in> {CC_Start, CC_InFlight, CC_ErrLock, CC_ErrAppend, CC_MuLock,
      CC_BinAppend, CC_MuUnlock, CC_Release})"

definition cc_counts :: "cc_state \<Rightarrow> bool" where
  "cc_counts s \<longleftrightarrow>
     int (cc_semaphore s) = cnt (\<lambda>w. cc_holding (pc w)) (cc_workers s)
     \<and> cc_wg s = cnt (\<lambda>w. pc w \<noteq> CC_Exited) (cc_workers s)
     \<and> cc_semaphore s \<le> cc_capacity s
     \<and> cc_err s = None"

text \<open>The main goroutine has passed \<open>wg.Wait()\<close>; the invocations it has yet to start.\<close>

definition cc_past_wait :: "cc_main_pc \<Rightarrow> bool" where
  "cc_past_wait m = (case m of CC_Loop _ \<Rightarrow> False | _ \<Rightarrow> True)"

definition cc_pending :: "cc_main_pc \<Rightarrow> (Platform \<times> string) list" where
  "cc_pending m = (case m of CC_Loop js \<Rightarrow> js | _ \<Rightarrow> [])"

definition cc_job :: "cc_worker \<Rightarrow> Platform \<times> string" where
  "cc_job w = (platform w, path w)"

text \<open>What one invocation, of a platform and a package, gives: the two results of
  \<open>GoCrossCompile\<close>, whether it failed, the message line 301 formats and the path
  line 304 builds.\<close>

definition cc_invoke :: "World \<Rightarrow> Flags \<Rightarrow> Platform \<times> string \<Rightarrow> string \<times> go_error option" where
  "cc_invoke W F j = GoCrossCompile W (mk_opts W F (cc_spawn j))"




text \<open>The same for a worker, from its locals, and whether it has appended already.\<close>

definition cc_compiled :: "cc_pc \<Rightarrow> bool" where
  "cc_compiled c = (c \<notin> {CC_Acquire, CC_Start, CC_InFlight})"

definition cc_wok :: "World \<Rightarrow> Flags \<Rightarrow> cc_worker \<Rightarrow> bool" where
  "cc_wok W F w \<longleftrightarrow>
     (if cc_compiled (pc w) then GoCrossCompile W (mk_opts W F w) = (binName w, werr w)
      else werr w = None)
     \<and> (pc w \<in> {CC_ErrLock, CC_ErrAppend, CC_DeferUnlock} \<longrightarrow> werr w \<noteq> None)"

definition cc_errmsg :: "cc_worker \<Rightarrow> string" where
  "cc_errmsg w = Platform_String (platform w) @ '' error: '' @ fmt_err (werr w)"

definition cc_err_appended :: "cc_worker \<Rightarrow> bool" where
  "cc_err_appended w \<longleftrightarrow> werr w \<noteq> None \<and>
     pc w \<in> {CC_MuLock, CC_BinAppend, CC_MuUnlock, CC_Release, CC_DeferUnlock, CC_DeferDone, CC_Exited}"

definition cc_artifact :: "World \<Rightarrow> cc_worker \<Rightarrow> string" where
  "cc_artifact W w = path w @ [PathSeparator W] @ binName w"

definition cc_bin_appended :: "cc_worker \<Rightarrow> bool" where
  "cc_bin_appended w \<longleftrightarrow>
     pc w \<in> {CC_MuUnlock, CC_Release, CC_DeferUnlock, CC_DeferDone, CC_Exited}"

definition cc_inv :: "World \<Rightarrow> Flags \<Rightarrow> (Platform \<times> string) list \<Rightarrow> cc_state \<Rightarrow> bool" where
  "cc_inv W F jobs s \<longleftrightarrow>
     cc_counts s
     \<and> (cc_past_wait (cc_main s) \<longrightarrow> (\<forall>w\<in>set (cc_workers s). pc w = CC_Exited))
     \<and> map cc_job (cc_workers s) @ cc_pending (cc_main s) = jobs
     \<and> (\<forall>w\<in>set (cc_workers s). cc_wok W F w)
     \<and> mset (cc_errors s) = contrib cc_errmsg cc_err_appended (cc_workers s)
     \<and> mset (cc_binPaths s) = contrib (cc_artifact W) cc_bin_appended (cc_workers s)"

text \<open>The workers inside the two critical sections (\<open>errorLock\<close> is held from line 298
  to the end of the goroutine), and the number of steps a goroutine has left at most.\<close>

definition cc_mu_holder :: "cc_worker \<Rightarrow> bool" where
  "cc_mu_holder w \<longleftrightarrow> pc w \<in> {CC_BinAppend, CC_MuUnlock}"

definition cc_lock_holder :: "cc_worker \<Rightarrow> bool" where
  "cc_lock_holder w \<longleftrightarrow> pc w \<in> {CC_ErrAppend, CC_DeferUnlock}
     \<or> (werr w \<noteq> None \<and> pc w \<in> {CC_MuLock, CC_BinAppend, CC_MuUnlock, CC_Release})"

definition cc_locks :: "cc_state \<Rightarrow> bool" where
  "cc_locks s \<longleftrightarrow>
     (cc_mu s \<longrightarrow> (\<exists>w\<in>set (cc_workers s). cc_mu_holder w))
     \<and> (cc_errorLock s \<longrightarrow> (\<exists>w\<in>set (cc_workers s). cc_lock_holder w))
     \<and> 0 < cc_capacity s"

fun cc_rank :: "cc_pc \<Rightarrow> nat" where
  "cc_rank CC_Acquire = 11"
| "cc_rank CC_Start = 10"
| "cc_rank CC_InFlight = 9"
| "cc_rank CC_ErrLock = 8"
| "cc_rank CC_ErrAppend = 7"
| "cc_rank CC_MuLock = 6"
| "cc_rank CC_BinAppend = 5"
| "cc_rank CC_MuUnlock = 4"
| "cc_rank CC_Release = 3"
| "cc_rank CC_DeferUnlock = 2"
| "cc_rank CC_DeferDone = 1"
| "cc_rank CC_Exited = 0"

fun cc_main_rank :: "cc_main_pc \<Rightarrow> nat" where
  "cc_main_rank (CC_Loop js) = 12 * length js + 2"
| "cc_main_rank CC_Read = 1"
| "cc_main_rank (CC_Returned bs e) = 0"

definition cc_measure :: "cc_state \<Rightarrow> nat" where
  "cc_measure s = cc_main_rank (cc_main s) + sum_list (map (\<lambda>w. cc_rank (pc w)) (cc_workers s))"

text \<open>What lines 312 to 316 write to the error stream for a list of messages, and how
  the result of \<open>CrossCompile\<close> is tied to the two lists.\<close>

definition cc_report :: "string list \<Rightarrow> string list" where
  "cc_report msgs =
     (if msgs = [] then []
      else (''\<newline>'' @ show_nat (length msgs) @ '' errors occurred:\<newline>'')
           # map (\<lambda>m. ''--> '' @ m @ ''\<newline>'') msgs)"

definition cc_final :: "cc_state \<Rightarrow> bool" where
  "cc_final s \<longleftrightarrow>
     (case cc_main s of
        CC_Returned bs e \<Rightarrow>
          e = None \<and> bs = (if cc_errors s = [] then Some (cc_binPaths s) else None)
          \<and> stderr_of (cc_trace s) = cc_report (cc_errors s)
      | _ \<Rightarrow> stderr_of (cc_trace s) = [])"

text \<open>All permits of a dispatch are back: there is a worker for each invocation, each
  has ended, with the error \<open>GoCrossCompile\<close> returned for it, and the channel is
  empty.\<close>

definition cc_released :: "World \<Rightarrow> Flags \<Rightarrow> (Platform \<times> string) list \<Rightarrow> cc_state \<Rightarrow> bool" where
  "cc_released W F jobs s \<longleftrightarrow>
     map cc_job (cc_workers s) = jobs
     \<and> (\<forall>w\<in>set (cc_workers s). pc w = CC_Exited \<and> werr w = snd (cc_invoke W F (cc_job w)))
     \<and> cc_semaphore s = 0"

section \<open>Example runs\<close>

text \<open>Two packages on three platforms with \<open>-parallel 2\<close> on a machine with four
  CPUs. \<open>GoCrossCompile\<close> fails for package \<open>b\<close> on \<open>darwin/amd64\<close>; the build script
  cannot be started for \<open>linux/386\<close> and exits with an error for \<open>darwin/amd64\<close>.\<close>

definition demo_flags :: Flags where
  "demo_flags = \<lparr>buildToolchain = False, ldflags = [], outputTpl = ''{{.Dir}}_{{.OS}}_{{.Arch}}'',
     parallel = 2, platformFlag = (\<lambda>ps. ps), tags = [], verbose = False, flagGcflags = [],
     flagCgo = False, flagRebuild = False, flagListOSArch = False, flagGoCmd = ''go'',
     Args = [''a'', ''b'']\<rparr>"

definition demo_world :: World where
  "demo_world = \<lparr>Parse = Inr demo_flags, NumCPU = 4, GOOS = ''linux'',
     LookPath = (\<lambda>_. None), GoVersionParts = Inr [1, 4], GoVersion = Inr ''go1.4'',
     GoRoot = Inr ''/go'',
     SupportedPlatforms = (\<lambda>_. [\<lparr>OS = ''linux'', Arch = ''amd64''\<rparr>, \<lparr>OS = ''linux'', Arch = ''386''\<rparr>,
        \<lparr>OS = ''darwin'', Arch = ''amd64''\<rparr>]),
     GoMainDirs = (\<lambda>ps _. Inr ps), mainListOSArch = (\<lambda>_. None),
     envOverride = (\<lambda>old _ _. old),
     GoCrossCompile = (\<lambda>opts. if PackagePath opts = ''b'' \<and> OS (Platform opts) = ''darwin''
         then ([], Some (Errorf ''exit status 2''))
         else (PackagePath opts @ ''_'' @ OS (Platform opts) @ ''_'' @ Arch (Platform opts), None)),
     PathSeparator = CHR ''/'',
     script = (\<lambda>p. if OS p = ''darwin''
         then \<lparr>start_err = None, writes = [(False, ''building\<newline>''), (True, ''boom'')],
               wait_err = Some (Errorf ''exit status 1'')\<rparr>
         else if Arch p = ''386''
         then \<lparr>start_err = Some (Errorf ''permission denied''), writes = [], wait_err = None\<rparr>
         else \<lparr>start_err = None, writes = [(False, ''ok\<newline>'')], wait_err = None\<rparr>)\<rparr>"

text \<open>A schedule of the six workers, two at a time, and the state in which the loop
  of \<open>CrossCompile\<close> starts.\<close>

definition demo_sched :: "event list" where
  "demo_sched = replicate 6 Main
     @ concat (replicate 3 [Worker 0, Worker 1]) @ replicate 5 (Worker 0) @ replicate 5 (Worker 1)
     @ concat (replicate 3 [Worker 3, Worker 2]) @ replicate 5 (Worker 2) @ replicate 5 (Worker 3)
     @ concat (replicate 3 [Worker 4, Worker 5]) @ replicate 8 (Worker 5) @ replicate 5 (Worker 4)
     @ [Main, Main]"

definition demo_start :: cc_state where
  "demo_start = \<lparr>cc_main = CC_Loop
       [(\<lparr>OS = ''linux'', Arch = ''amd64''\<rparr>, ''a''), (\<lparr>OS = ''linux'', Arch = ''amd64''\<rparr>, ''b''),
        (\<lparr>OS = ''linux'', Arch = ''386''\<rparr>, ''a''), (\<lparr>OS = ''linux'', Arch = ''386''\<rparr>, ''b''),
        (\<lparr>OS = ''darwin'', Arch = ''amd64''\<rparr>, ''a''), (\<lparr>OS = ''darwin'', Arch = ''amd64''\<rparr>, ''b'')],
     cc_workers = [], cc_semaphore = 0, cc_capacity = 2, cc_wg = 0,
     cc_errorLock = False, cc_mu = False, cc_errors = [], cc_binPaths = [], cc_err = None,
     cc_trace = [Called ''Parse'', Called ''LookPath'', Called ''GoVersion'',
        Called ''GoMainDirs'', Called ''SupportedPlatforms'', Called ''Platforms'',
        Stdout ''Number of parallel builds: 2\<newline>\<newline>'']\<rparr>"

text \<open>The state after the first ten events: both permits are taken and two calls of
  \<open>GoCrossCompile\<close> are under way.\<close>

definition demo_mid :: cc_state where
  "demo_mid = the (cc_exec demo_world demo_flags (take 10 demo_sched) demo_start)"


text \<open>The state after 49 events, where the worker whose invocation failed is at line
  306 and the other worker of the last pair waits for \<open>mu\<close>, and the state at the end.\<close>

definition demo_release :: cc_state where
  "demo_release = the (cc_exec demo_world demo_flags (take 49 demo_sched) demo_start)"

definition demo_end :: cc_state where
  "demo_end = the (cc_exec demo_world demo_flags demo_sched demo_start)"





text \<open>One package on one platform, and the invocation fails.\<close>

definition single_world :: World where
  "single_world = demo_world\<lparr>Parse := Inr (demo_flags\<lparr>Args := [''b'']\<rparr>),
     SupportedPlatforms := (\<lambda>_. [\<lparr>OS = ''darwin'', Arch = ''amd64''\<rparr>])\<rparr>"

definition single_sched :: "event list" where
  "single_sched = [Main] @ replicate 11 (Worker 0) @ [Main, Main]"

text \<open>No platform is left by the platform flags.\<close>

definition no_platform_flags :: Flags where
  "no_platform_flags = demo_flags\<lparr>platformFlag := (\<lambda>ps. [])\<rparr>"

definition no_platform_world :: World where
  "no_platform_world = demo_world\<lparr>Parse := Inr no_platform_flags\<rparr>"

text \<open>The toolchain build for the three platforms, one worker after the other, and
  the state in which the loop of \<open>mainBuildToolchain\<close> starts.\<close>

definition toolchain_world :: World where
  "toolchain_world = demo_world\<lparr>Parse := Inr (demo_flags\<lparr>buildToolchain := True\<rparr>)\<rparr>"

definition toolchain_sched :: "event list" where
  "toolchain_sched = replicate 3 Main @ replicate 7 (Worker 0) @ replicate 8 (Worker 1)
     @ replicate 11 (Worker 2) @ [Main, Main]"

definition toolchain_start :: bt_state where
  "toolchain_start = \<lparr>bt_main = BT_Loop [\<lparr>OS = ''linux'', Arch = ''amd64''\<rparr>,
        \<lparr>OS = ''linux'', Arch = ''386''\<rparr>, \<lparr>OS = ''darwin'', Arch = ''amd64''\<rparr>],
     bt_workers = [], bt_semaphore = 0, bt_capacity = 1, bt_wg = 0, bt_errorLock = False,
     bt_errs = [], bt_err = None,
     bt_trace = [Called ''LookPath'', Called ''GoVersionParts'', Called ''GoVersion'',
        Called ''GoRoot'', Called ''SupportedPlatforms'', Called ''Platforms''] @ serial_notice\<rparr>"

text \<open>The state after six events: the script of the first platform runs, the other
  two workers wait for the permit.\<close>

definition toolchain_mid :: bt_state where
  "toolchain_mid = the (bt_exec toolchain_world False (take 6 toolchain_sched) toolchain_start)"

text \<open>The state after 13 events, where the worker whose script could not be started
  is at the deferred receive of line 96, and the state at the end.\<close>

definition toolchain_release :: bt_state where
  "toolchain_release = the (bt_exec toolchain_world False (take 13 toolchain_sched) toolchain_start)"

definition toolchain_end :: bt_state where
  "toolchain_end = the (bt_exec toolchain_world False toolchain_sched toolchain_start)"

text \<open>The toolchain build when the platform flags leave no platform.\<close>

definition no_platform_toolchain_flags :: Flags where
  "no_platform_toolchain_flags = no_platform_flags\<lparr>buildToolchain := True\<rparr>"

definition no_platform_toolchain_world :: World where
  "no_platform_toolchain_world = demo_world\<lparr>Parse := Inr no_platform_toolchain_flags\<rparr>"

text \<open>The toolchain build for \<open>darwin/amd64\<close> alone, where the script fails. In this
  schedule the main goroutine runs as soon as the worker has called \<open>wg.Done\<close>.\<close>

definition race_world :: World where
  "race_world = toolchain_world\<lparr>SupportedPlatforms := (\<lambda>_. [\<lparr>OS = ''darwin'', Arch = ''amd64''\<rparr>])\<rparr>"

definition race_sched :: "event list" where
  "race_sched = [Main] @ replicate 8 (Worker 0) @ [Main, Main]"

text \<open>The toolchain build with \<open>-verbose\<close>: every worker is followed by its reader.\<close>

definition verbose_world :: World where
  "verbose_world = demo_world\<lparr>Parse := Inr (demo_flags\<lparr>buildToolchain := True, verbose := True\<rparr>)\<rparr>"

definition verbose_sched :: "event list" where
  "verbose_sched = replicate 3 Main
     @ replicate 4 (Worker 0) @ [Reader 0] @ replicate 2 (Worker 0) @ [Reader 0] @ replicate 3 (Worker 0)
     @ replicate 4 (Worker 1) @ [Reader 1] @ replicate 6 (Worker 1)
     @ replicate 5 (Worker 2) @ [Reader 2] @ replicate 2 (Worker 2) @ [Reader 2, Reader 2]
     @ replicate 6 (Worker 2) @ [Main, Main]"

definition verbose_start :: bt_state where
  "verbose_start = toolchain_start\<lparr>bt_trace :=
     [Called ''LookPath'', Called ''GoVersionParts'', Called ''GoVersion'', Called ''GoRoot'']
     @ verbose_notice @ [Called ''SupportedPlatforms'', Called ''Platforms''] @ serial_notice\<rparr>"

definition verbose_end :: bt_state where
  "verbose_end = the (bt_exec verbose_world True verbose_sched verbose_start)"

text \<open>Installed versions of Go: 1.5 and a hypothetical 2.0.\<close>

definition go15_world :: World where
  "go15_world = demo_world\<lparr>GoVersionParts := Inr [1, 5]\<rparr>"

definition go20_world :: World where
  "go20_world = demo_world\<lparr>GoVersionParts := Inr [2, 0]\<rparr>"

section \<open>Lists of workers\<close>

lemma cnt_Nil [simp]: "cnt P [] = 0"
  by (simp add: cnt_def)

lemma cnt_append [simp]: "cnt P (xs @ ys) = cnt P xs + cnt P ys"
  by (simp add: cnt_def)

lemma cnt_Cons [simp]: "cnt P (x # xs) = (if P x then 1 else 0) + cnt P xs"
  by (simp add: cnt_def)

lemma cnt_nonneg: "0 \<le> cnt P xs"
  by (simp add: cnt_def)

lemma cnt_update:
  "i < length xs \<Longrightarrow>
     cnt P (xs[i := y]) = cnt P xs - (if P (xs ! i) then 1 else 0) + (if P y then 1 else 0)"
proof (induction xs arbitrary: i)
  case Nil
  then show ?case by simp
next
  case (Cons x xs)
  then show ?case by (cases i) auto
qed

lemma cnt_zero_iff: "cnt P xs = 0 \<longleftrightarrow> (\<forall>x\<in>set xs. \<not> P x)"
  by (induction xs) (auto simp: add_nonneg_eq_0_iff cnt_nonneg dest: sym)

lemma cnt_pos: "x \<in> set xs \<Longrightarrow> P x \<Longrightarrow> 0 < cnt P xs"
  using cnt_zero_iff [of P xs] cnt_nonneg [of P xs] by force

lemma cnt_mono: "(\<And>x. P x \<Longrightarrow> Q x) \<Longrightarrow> cnt P xs \<le> cnt Q xs"
  by (induction xs) auto

lemma contrib_Nil [simp]: "contrib f P [] = {#}"
  by (simp add: contrib_def)

lemma contrib_append [simp]: "contrib f P (xs @ ys) = contrib f P xs + contrib f P ys"
  by (simp add: contrib_def)

lemma contrib_Cons [simp]:
  "contrib f P (x # xs) = (if P x then add_mset (f x) (contrib f P xs) else contrib f P xs)"
  by (simp add: contrib_def)

lemma contrib_update_same:
  "i < length xs \<Longrightarrow> P y = P (xs ! i) \<Longrightarrow> (P y \<Longrightarrow> f y = f (xs ! i)) \<Longrightarrow>
     contrib f P (xs[i := y]) = contrib f P xs"
proof (induction xs arbitrary: i)
  case Nil
  then show ?case by simp
next
  case (Cons x xs)
  then show ?case by (cases i) auto
qed

lemma contrib_update_add:
  "i < length xs \<Longrightarrow> \<not> P (xs ! i) \<Longrightarrow> P y \<Longrightarrow>
     contrib f P (xs[i := y]) = add_mset (f y) (contrib f P xs)"
proof (induction xs arbitrary: i)
  case Nil
  then show ?case by simp
next
  case (Cons x xs)
  then show ?case by (cases i) auto
qed

lemma contrib_step:
  assumes "i < length xs" and "mset acc = contrib f P xs"
    and "(P y = P (xs ! i) \<and> (P y \<longrightarrow> f y = f (xs ! i)) \<and> acc' = acc)
         \<or> (\<not> P (xs ! i) \<and> P y \<and> acc' = acc @ [f y])"
  shows "mset acc' = contrib f P (xs[i := y])"
proof -
  from assms(3) show ?thesis
  proof (elim disjE conjE)
    assume "P y = P (xs ! i)" "P y \<longrightarrow> f y = f (xs ! i)" "acc' = acc"
    then show ?thesis
      using assms(1,2) contrib_update_same [of i xs P y f] by auto
  next
    assume "\<not> P (xs ! i)" "P y" "acc' = acc @ [f y]"
    then show ?thesis
      using assms(1,2) contrib_update_add [of i xs P y f] by simp
  qed
qed

lemma set_updateD: "x \<in> set (xs[i := y]) \<Longrightarrow> x = y \<or> x \<in> set xs"
  using set_update_subset_insert [of xs i y] by auto

lemma ball_update: "\<forall>x\<in>set xs. P x \<Longrightarrow> P y \<Longrightarrow> \<forall>x\<in>set (xs[i := y]). P x"
  by (auto dest: set_updateD)

lemma map_update_same:
  "i < length xs \<Longrightarrow> f y = f (xs ! i) \<Longrightarrow> map f (xs[i := y]) = map f xs"
proof (induction xs arbitrary: i)
  case Nil
  then show ?case by simp
next
  case (Cons x xs)
  then show ?case by (cases i) auto
qed

section \<open>Steps of the toolchain build\<close>

text \<open>Each step of a worker, of a reader and of the main goroutine is one of a few
  cases; the properties of the steps follow case by case.\<close>

lemma bt_worker_stepE:
  assumes "bt_worker_step W verb i s = Some s'"
  obtains w' s1 where "i < length (bt_workers s)"
    and "bt_local W verb (bt_workers s ! i) s = Some (w', s1)"
    and "s' = s1\<lparr>bt_workers := (bt_workers s)[i := w']\<rparr>"
  using assms unfolding bt_worker_step_def
  by (auto split: if_splits option.splits)

lemma bt_reader_stepE:
  assumes "bt_reader_step i s = Some s'"
  obtains w' s1 where "i < length (bt_workers s)"
    and "bt_reader_local (bt_workers s ! i) s = Some (w', s1)"
    and "s' = s1\<lparr>bt_workers := (bt_workers s)[i := w']\<rparr>"
  using assms unfolding bt_reader_step_def
  by (auto split: if_splits option.splits)

lemma bt_write_frame [simp]:
  "bpc (bt_write verb c w) = bpc w" "berr (bt_write verb c w) = berr w"
  "bplatform (bt_write verb c w) = bplatform w"
  "w_closed (bt_write verb c w) = w_closed w" "doneCh (bt_write verb c w) = doneCh w"
  "reading (bt_write verb c w) = reading w"
  by (simp_all add: bt_write_def)

lemma bt_localE:
  assumes "bt_local W verb w s = Some (w', s1)"
  obtains
    (acquire) "bpc w = BT_Acquire" and "bt_semaphore s < bt_capacity s"
      and "w' = w\<lparr>bpc := BT_Setup\<rparr>" and "s1 = s\<lparr>bt_semaphore := bt_semaphore s + 1\<rparr>"
  | (prepare) "bpc w = BT_Setup" and "w' = w\<lparr>bpc := BT_Start, reading := verb\<rparr>"
      and "s1 = s\<lparr>bt_trace := bt_trace s @
             [Stdout (''--> Toolchain: '' @ Platform_String (bplatform w) @ ''\<newline>'')]\<rparr>"
  | (start_fail) e where "bpc w = BT_Start" and "start_err (script W (bplatform w)) = Some e"
      and "w' = w\<lparr>bpc := bt_deferred verb,
             berr := Some (Errorf (''Error building '' @ [CHR 0x27] @ Platform_String (bplatform w)
                       @ [CHR 0x27] @ '': '' @ Error e))\<rparr>"
      and "s1 = s\<lparr>bt_trace := bt_trace s @ [Called (scriptName W)]\<rparr>"
  | (start_ok) "bpc w = BT_Start" and "start_err (script W (bplatform w)) = None"
      and "w' = w\<lparr>bpc := BT_Wait, pending := writes (script W (bplatform w))\<rparr>"
      and "s1 = s\<lparr>bt_trace := bt_trace s @ [Called (scriptName W)]\<rparr>"
  | (emit) c cs where "bpc w = BT_Wait" and "pending w = c # cs"
      and "w' = (bt_write verb c w)\<lparr>pending := cs\<rparr>" and "s1 = s"
  | (wait_fail) e where "bpc w = BT_Wait" and "pending w = []"
      and "wait_err (script W (bplatform w)) = Some e"
      and "w' = w\<lparr>bpc := bt_deferred verb,
             berr := Some (Errorf (''Error building '' @ [CHR 0x27] @ Platform_String (bplatform w)
                       @ [CHR 0x27] @ ''.\<newline>\<newline>Stdout: '' @ stdout_buf w
                       @ ''\<newline>\<newline>Stderr: '' @ stderr_buf w @ ''\<newline>''))\<rparr>"
      and "s1 = s"
  | (wait_ok) "bpc w = BT_Wait" and "pending w = []"
      and "wait_err (script W (bplatform w)) = None"
      and "w' = w\<lparr>bpc := bt_deferred verb, berr := None\<rparr>" and "s1 = s"
  | (closew) "bpc w = BT_CloseW" and "w' = w\<lparr>bpc := BT_AwaitDone, w_closed := True\<rparr>"
      and "s1 = s"
  | (await) "bpc w = BT_AwaitDone" and "doneCh w" and "w' = w\<lparr>bpc := BT_Release\<rparr>" and "s1 = s"
  | (release) "bpc w = BT_Release" and "bt_semaphore s \<noteq> 0" and "w' = w\<lparr>bpc := BT_WgDone\<rparr>"
      and "s1 = s\<lparr>bt_semaphore := bt_semaphore s - 1\<rparr>"
  | (wgdone) "bpc w = BT_WgDone" and "0 < bt_wg s"
      and "w' = w\<lparr>bpc := (if berr w \<noteq> None then BT_ErrLock else BT_Exited)\<rparr>"
      and "s1 = s\<lparr>bt_wg := bt_wg s - 1\<rparr>"
  | (errlock) "bpc w = BT_ErrLock" and "\<not> bt_errorLock s" and "w' = w\<lparr>bpc := BT_ErrAppend\<rparr>"
      and "s1 = s\<lparr>bt_errorLock := True\<rparr>"
  | (errappend) "bpc w = BT_ErrAppend" and "w' = w\<lparr>bpc := BT_ErrUnlock\<rparr>"
      and "s1 = s\<lparr>bt_errs := bt_errs s @
             [Errorf (Platform_String (bplatform w) @ '': '' @ fmt_err (berr w))]\<rparr>"
  | (errunlock) "bpc w = BT_ErrUnlock" and "w' = w\<lparr>bpc := BT_Exited\<rparr>"
      and "s1 = s\<lparr>bt_errorLock := False\<rparr>"
proof (cases "bpc w")
  case BT_Acquire
  then show ?thesis
    using assms acquire unfolding bt_local_def Let_def by (simp split: if_splits)
next
  case BT_Setup
  then show ?thesis
    using assms prepare unfolding bt_local_def Let_def by simp
next
  case BT_Start
  then show ?thesis
    using assms start_fail start_ok unfolding bt_local_def Let_def
    by (cases "start_err (script W (bplatform w))") simp_all
next
  case BT_Wait
  show ?thesis
  proof (cases "pending w")
    case Nil
    then show ?thesis
      using assms BT_Wait wait_fail wait_ok unfolding bt_local_def Let_def
      by (cases "wait_err (script W (bplatform w))") simp_all
  next
    case (Cons c cs)
    then show ?thesis
      using assms BT_Wait emit unfolding bt_local_def Let_def by simp
  qed
next
  case BT_CloseW
  then show ?thesis
    using assms closew unfolding bt_local_def Let_def by simp
next
  case BT_AwaitDone
  then show ?thesis
    using assms await unfolding bt_local_def Let_def by (simp split: if_splits)
next
  case BT_Release
  then show ?thesis
    using assms release unfolding bt_local_def Let_def by (simp split: if_splits)
next
  case BT_WgDone
  then show ?thesis
    using assms wgdone unfolding bt_local_def Let_def by (simp split: if_splits)
next
  case BT_ErrLock
  then show ?thesis
    using assms errlock unfolding bt_local_def Let_def by (simp split: if_splits)
next
  case BT_ErrAppend
  then show ?thesis
    using assms errappend unfolding bt_local_def Let_def by simp
next
  case BT_ErrUnlock
  then show ?thesis
    using assms errunlock unfolding bt_local_def Let_def by simp
next
  case BT_Exited
  then show ?thesis
    using assms unfolding bt_local_def Let_def by simp
qed

lemma bt_local_frame:
  assumes "bt_local W verb w s = Some (w', s1)"
  shows "bt_workers s1 = bt_workers s \<and> bt_main s1 = bt_main s
     \<and> bt_capacity s1 = bt_capacity s \<and> bt_err s1 = bt_err s
     \<and> bplatform w' = bplatform w \<and> bpc w \<noteq> BT_Exited
     \<and> (\<exists>post. bt_trace s1 = bt_trace s @ post)"
  using assms by (cases rule: bt_localE) simp_all

lemma bt_local_counts:
  assumes "bt_local W verb w s = Some (w', s1)"
  shows "int (bt_semaphore s1) = int (bt_semaphore s)
           - (if bt_holding (bpc w) then 1 else 0) + (if bt_holding (bpc w') then 1 else 0)"
    and "bt_wg s1 = bt_wg s
           - (if bt_before_done (bpc w) then 1 else 0) + (if bt_before_done (bpc w') then 1 else 0)"
    and "bt_semaphore s \<le> bt_capacity s \<Longrightarrow> bt_semaphore s1 \<le> bt_capacity s1"
  using assms
  by (cases rule: bt_localE; simp add: bt_holding_def bt_before_done_def bt_deferred_def)+

lemma bt_local_wok:
  assumes "bt_local W verb w s = Some (w', s1)" and "bt_wok verb w"
  shows "bt_wok verb w'"
  using assms
  by (cases rule: bt_localE) (auto simp: bt_wok_def bt_drained_def bt_deferred_def bt_write_def)

lemma bt_reader_localE:
  assumes "bt_reader_local w s = Some (w', s1)"
  obtains (line) "reading w" and "w' = w\<lparr>pipe := tl (dropWhile (\<lambda>c. c \<noteq> CHR 0x0A) (pipe w))\<rparr>"
      and "s1 = s\<lparr>bt_trace := bt_trace s @ [Stdout (Platform_String (bplatform w) @ '': ''
              @ takeWhile (\<lambda>c. c \<noteq> CHR 0x0A) (pipe w) @ ''\<newline>'')]\<rparr>"
  | (rest) "reading w" and "w_closed w" and "w' = w\<lparr>pipe := []\<rparr>"
      and "s1 = s\<lparr>bt_trace := bt_trace s @ [Stdout (Platform_String (bplatform w) @ '': '' @ pipe w)]\<rparr>"
  | (eof) "reading w" and "w_closed w" and "pipe w = []"
      and "w' = w\<lparr>reading := False, doneCh := True\<rparr>" and "s1 = s"
proof -
  have r: "reading w"
    using assms unfolding bt_reader_local_def Let_def by (cases "reading w") simp_all
  show ?thesis
  proof (cases "CHR 0x0A \<in> set (pipe w)")
    case True
    have "w' = w\<lparr>pipe := tl (dropWhile (\<lambda>c. c \<noteq> CHR 0x0A) (pipe w))\<rparr>
      \<and> s1 = s\<lparr>bt_trace := bt_trace s @ [Stdout (Platform_String (bplatform w) @ '': ''
              @ takeWhile (\<lambda>c. c \<noteq> CHR 0x0A) (pipe w) @ ''\<newline>'')]\<rparr>"
      using assms r True unfolding bt_reader_local_def Let_def by simp
    then show ?thesis using line r by blast
  next
    case False
    have c: "w_closed w"
      using assms r unfolding bt_reader_local_def Let_def if_not_P [OF False]
      by (cases "w_closed w") simp_all
    show ?thesis
    proof (cases "pipe w = []")
      case True
      then have "w' = w\<lparr>reading := False, doneCh := True\<rparr> \<and> s1 = s"
        using assms r c False unfolding bt_reader_local_def Let_def by simp
      then show ?thesis using eof r c True by blast
    next
      case ne: False
      then have "w' = w\<lparr>pipe := []\<rparr>
         \<and> s1 = s\<lparr>bt_trace := bt_trace s @ [Stdout (Platform_String (bplatform w) @ '': '' @ pipe w)]\<rparr>"
        using assms r c False unfolding bt_reader_local_def Let_def by simp
      then show ?thesis using rest r c by blast
    qed
  qed
qed

lemma bt_reader_local_frame:
  assumes "bt_reader_local w s = Some (w', s1)"
  shows "bt_workers s1 = bt_workers s \<and> bt_main s1 = bt_main s
     \<and> bt_capacity s1 = bt_capacity s \<and> bt_err s1 = bt_err s
     \<and> bt_semaphore s1 = bt_semaphore s \<and> bt_wg s1 = bt_wg s
     \<and> bt_errs s1 = bt_errs s \<and> bt_errorLock s1 = bt_errorLock s
     \<and> bplatform w' = bplatform w \<and> bpc w' = bpc w \<and> berr w' = berr w
     \<and> (\<exists>post. bt_trace s1 = bt_trace s @ post)"
  using assms by (cases rule: bt_reader_localE) simp_all

lemma bt_reader_local_wok:
  assumes "bt_reader_local w s = Some (w', s1)" and "bt_wok verb w"
  shows "bt_wok verb w'"
  using assms by (cases rule: bt_reader_localE) (auto simp: bt_wok_def bt_drained_def)

lemma bt_counts_update:
  assumes "bt_counts s" and "i < length (bt_workers s)"
    and "bt_workers s1 = bt_workers s" and "bt_main s1 = bt_main s"
    and "bt_capacity s1 = bt_capacity s" and "bt_err s1 = bt_err s"
    and "int (bt_semaphore s1) = int (bt_semaphore s)
           - (if bt_holding (bpc (bt_workers s ! i)) then 1 else 0)
           + (if bt_holding (bpc w') then 1 else 0)"
    and "bt_wg s1 = bt_wg s
           - (if bt_before_done (bpc (bt_workers s ! i)) then 1 else 0)
           + (if bt_before_done (bpc w') then 1 else 0)"
    and "bt_semaphore s1 \<le> bt_capacity s1"
  shows "bt_counts (s1\<lparr>bt_workers := (bt_workers s)[i := w']\<rparr>)"
proof -
  have "cnt (\<lambda>w. bt_holding (bpc w)) ((bt_workers s)[i := w']) = int (bt_semaphore s1)"
    using assms(1,7) cnt_update [OF assms(2), of "\<lambda>w. bt_holding (bpc w)" w']
    unfolding bt_counts_def by linarith
  moreover have "cnt (\<lambda>w. bt_before_done (bpc w)) ((bt_workers s)[i := w']) = bt_wg s1"
    using assms(1,8) cnt_update [OF assms(2), of "\<lambda>w. bt_before_done (bpc w)" w']
    unfolding bt_counts_def by linarith
  ultimately show ?thesis
    using assms(1,4,5,6,9) unfolding bt_counts_def by simp
qed

lemma bt_counts_worker:
  assumes "bt_counts s" and "i < length (bt_workers s)"
    and "bt_local W verb (bt_workers s ! i) s = Some (w', s1)"
  shows "bt_counts (s1\<lparr>bt_workers := (bt_workers s)[i := w']\<rparr>)"
proof -
  note fr = bt_local_frame [OF assms(3)]
  have "bt_semaphore s \<le> bt_capacity s"
    using assms(1) by (simp add: bt_counts_def)
  then have "bt_semaphore s1 \<le> bt_capacity s1"
    by (rule bt_local_counts(3) [OF assms(3)])
  then show ?thesis
    using assms(1,2) fr bt_local_counts(1,2) [OF assms(3)]
    by (intro bt_counts_update) simp_all
qed

lemma bt_counts_reader:
  assumes "bt_counts s" and "i < length (bt_workers s)"
    and "bt_reader_local (bt_workers s ! i) s = Some (w', s1)"
  shows "bt_counts (s1\<lparr>bt_workers := (bt_workers s)[i := w']\<rparr>)"
proof -
  note fr = bt_reader_local_frame [OF assms(3)]
  have "bt_semaphore s \<le> bt_capacity s"
    using assms(1) by (simp add: bt_counts_def)
  then show ?thesis
    using assms(1,2) fr
    by (intro bt_counts_update) simp_all
qed

lemma bt_inv_worker:
  assumes "bt_inv verb s" and "bt_worker_step W verb i s = Some s'"
  shows "bt_inv verb s'"
proof -
  from assms(2) obtain w' s1 where i: "i < length (bt_workers s)"
    and loc: "bt_local W verb (bt_workers s ! i) s = Some (w', s1)"
    and s': "s' = s1\<lparr>bt_workers := (bt_workers s)[i := w']\<rparr>"
    by (rule bt_worker_stepE)
  have inv: "bt_counts s" "\<forall>w\<in>set (bt_workers s). bt_wok verb w"
    using assms(1) by (simp_all add: bt_inv_def)
  have wok: "bt_wok verb (bt_workers s ! i)"
    using inv(2) i by simp
  have 1: "bt_counts s'"
    unfolding s' using inv(1) i loc by (rule bt_counts_worker)
  have "\<forall>x\<in>set ((bt_workers s)[i := w']). bt_wok verb x"
    using inv(2) bt_local_wok [OF loc wok] by (rule ball_update)
  then have 2: "\<forall>x\<in>set (bt_workers s'). bt_wok verb x"
    by (simp add: s')
  show ?thesis
    using 1 2 by (simp add: bt_inv_def)
qed

lemma bt_inv_reader:
  assumes "bt_inv verb s" and "bt_reader_step i s = Some s'"
  shows "bt_inv verb s'"
proof -
  from assms(2) obtain w' s1 where i: "i < length (bt_workers s)"
    and loc: "bt_reader_local (bt_workers s ! i) s = Some (w', s1)"
    and s': "s' = s1\<lparr>bt_workers := (bt_workers s)[i := w']\<rparr>"
    by (rule bt_reader_stepE)
  have inv: "bt_counts s" "\<forall>w\<in>set (bt_workers s). bt_wok verb w"
    using assms(1) by (simp_all add: bt_inv_def)
  have wok: "bt_wok verb (bt_workers s ! i)"
    using inv(2) i by simp
  have 1: "bt_counts s'"
    unfolding s' using inv(1) i loc by (rule bt_counts_reader)
  have "\<forall>x\<in>set ((bt_workers s)[i := w']). bt_wok verb x"
    using inv(2) bt_reader_local_wok [OF loc wok] by (rule ball_update)
  then have 2: "\<forall>x\<in>set (bt_workers s'). bt_wok verb x"
    by (simp add: s')
  show ?thesis
    using 1 2 by (simp add: bt_inv_def)
qed

lemma bt_spawn_facts [simp]:
  "bpc (bt_spawn p) = BT_Acquire"
  "bplatform (bt_spawn p) = p"
  "bt_wok verb (bt_spawn p)"
  by (simp_all add: bt_spawn_def bt_wok_def bt_drained_def)

lemma bt_main_stepE:
  assumes "bt_main_step s = Some s'"
  obtains (spawn) p ps where "bt_main s = BT_Loop (p # ps)"
      and "s' = s\<lparr>bt_main := BT_Loop ps, bt_wg := bt_wg s + 1,
             bt_workers := bt_workers s @ [bt_spawn p]\<rparr>"
  | (wait) "bt_main s = BT_Loop []" and "bt_wg s = 0" and "s' = s\<lparr>bt_main := BT_Read\<rparr>"
  | (report) "bt_main s = BT_Read" and "bt_errs s \<noteq> []"
      and "s' = s\<lparr>bt_main := BT_Returned (bt_err s),
             bt_trace := bt_trace s
               @ [Stderr (''\<newline>'' @ show_nat (length (bt_errs s)) @ '' errors occurred:\<newline>'')]
               @ map (\<lambda>e. Stderr (Error e @ ''\<newline>'')) (bt_errs s)\<rparr>"
  | (clean) "bt_main s = BT_Read" and "bt_errs s = []" and "s' = s\<lparr>bt_main := BT_Returned None\<rparr>"
proof (cases "bt_main s")
  case (BT_Loop ps)
  show ?thesis
  proof (cases ps)
    case Nil
    then show ?thesis
      using assms BT_Loop wait unfolding bt_main_step_def by (simp split: if_splits)
  next
    case (Cons p ps')
    then show ?thesis
      using assms BT_Loop spawn unfolding bt_main_step_def by simp
  qed
next
  case BT_Read
  show ?thesis
  proof (cases "bt_errs s = []")
    case True
    then show ?thesis
      using assms BT_Read clean unfolding bt_main_step_def by simp
  next
    case False
    then show ?thesis
      using assms BT_Read report unfolding bt_main_step_def by simp
  qed
next
  case (BT_Returned e)
  then show ?thesis
    using assms unfolding bt_main_step_def by simp
qed

lemma bt_inv_main:
  assumes "bt_inv verb s" and "bt_main_step s = Some s'"
  shows "bt_inv verb s'"
  using assms(2,1)
  by (cases rule: bt_main_stepE)
     (simp_all add: bt_inv_def bt_counts_def bt_holding_def bt_before_done_def)

lemma bt_inv_step:
  assumes "bt_inv verb s" and "bt_step W verb e s = Some s'"
  shows "bt_inv verb s'"
proof (cases e)
  case Main
  then show ?thesis using assms bt_inv_main [of verb s s'] by simp
next
  case (Worker i)
  then show ?thesis using assms bt_inv_worker [of verb s W i s'] by simp
next
  case (Reader i)
  then show ?thesis using assms bt_inv_reader [of verb s i s'] by simp
qed

lemma bt_inv_exec:
  "bt_inv verb s \<Longrightarrow> bt_exec W verb es s = Some s' \<Longrightarrow> bt_inv verb s'"
proof (induction es arbitrary: s)
  case Nil
  then show ?case by simp
next
  case (Cons e es)
  then obtain s1 where "bt_step W verb e s = Some s1" and "bt_exec W verb es s1 = Some s'"
    by (auto split: option.splits)
  then show ?case
    using Cons.IH [of s1] Cons.prems(1) bt_inv_step by blast
qed

lemma bt_step_frame:
  assumes "bt_step W verb e s = Some s'"
  shows "bt_capacity s' = bt_capacity s \<and> (\<exists>post. bt_trace s' = bt_trace s @ post)"
proof (cases e)
  case Main
  then have "bt_main_step s = Some s'"
    using assms by simp
  then show ?thesis
    by (cases rule: bt_main_stepE) simp_all
next
  case (Worker i)
  then have "bt_worker_step W verb i s = Some s'"
    using assms by simp
  then show ?thesis
    by (elim bt_worker_stepE) (use bt_local_frame in fastforce)
next
  case (Reader i)
  then have "bt_reader_step i s = Some s'"
    using assms by simp
  then show ?thesis
    by (elim bt_reader_stepE) (use bt_reader_local_frame in fastforce)
qed

lemma bt_exec_frame:
  "bt_exec W verb es s = Some s' \<Longrightarrow>
     bt_capacity s' = bt_capacity s \<and> (\<exists>post. bt_trace s' = bt_trace s @ post)"
proof (induction es arbitrary: s)
  case Nil
  then show ?case by simp
next
  case (Cons e es)
  then obtain s1 where "bt_step W verb e s = Some s1" and "bt_exec W verb es s1 = Some s'"
    by (auto split: option.splits)
  then show ?case
    using Cons.IH [of s1] bt_step_frame [of W verb e s s1] by auto
qed

section \<open>Steps of the build dispatch\<close>

lemma cc_worker_stepE:
  assumes "cc_worker_step W F i s = Some s'"
  obtains w' s1 where "i < length (cc_workers s)"
    and "cc_local W F (cc_workers s ! i) s = Some (w', s1)"
    and "s' = s1\<lparr>cc_workers := (cc_workers s)[i := w']\<rparr>"
  using assms unfolding cc_worker_step_def
  by (auto split: if_splits option.splits)

lemma cc_localE:
  assumes "cc_local W F w s = Some (w', s1)"
  obtains
    (acquire) "pc w = CC_Acquire" and "cc_semaphore s < cc_capacity s"
      and "w' = w\<lparr>pc := CC_Start\<rparr>" and "s1 = s\<lparr>cc_semaphore := cc_semaphore s + 1\<rparr>"
  | (start) "pc w = CC_Start" and "w' = w\<lparr>pc := CC_InFlight\<rparr>"
      and "s1 = s\<lparr>cc_trace := cc_trace s @
             [Stdout (''--> '' @ pad15 (Platform_String (platform w)) @ '': '' @ path w @ ''\<newline>''),
              Called ''envOverride'', Called ''envOverride'', Called ''GoCrossCompile'']\<rparr>"
  | (compile) "pc w = CC_InFlight"
      and "w' = w\<lparr>pc := (if snd (GoCrossCompile W (mk_opts W F w)) \<noteq> None
                          then CC_ErrLock else CC_MuLock),
                    binName := fst (GoCrossCompile W (mk_opts W F w)),
                    werr := snd (GoCrossCompile W (mk_opts W F w))\<rparr>"
      and "s1 = s"
  | (errlock) "pc w = CC_ErrLock" and "\<not> cc_errorLock s" and "w' = w\<lparr>pc := CC_ErrAppend\<rparr>"
      and "s1 = s\<lparr>cc_errorLock := True\<rparr>"
  | (errappend) "pc w = CC_ErrAppend" and "w' = w\<lparr>pc := CC_MuLock\<rparr>"
      and "s1 = s\<lparr>cc_errors := cc_errors s @
             [Platform_String (platform w) @ '' error: '' @ fmt_err (werr w)]\<rparr>"
  | (mulock) "pc w = CC_MuLock" and "\<not> cc_mu s" and "w' = w\<lparr>pc := CC_BinAppend\<rparr>"
      and "s1 = s\<lparr>cc_mu := True\<rparr>"
  | (binappend) "pc w = CC_BinAppend" and "w' = w\<lparr>pc := CC_MuUnlock\<rparr>"
      and "s1 = s\<lparr>cc_binPaths := cc_binPaths s @ [path w @ [PathSeparator W] @ binName w]\<rparr>"
  | (muunlock) "pc w = CC_MuUnlock" and "w' = w\<lparr>pc := CC_Release\<rparr>"
      and "s1 = s\<lparr>cc_mu := False\<rparr>"
  | (release) "pc w = CC_Release" and "cc_semaphore s \<noteq> 0"
      and "w' = w\<lparr>pc := (if werr w \<noteq> None then CC_DeferUnlock else CC_DeferDone)\<rparr>"
      and "s1 = s\<lparr>cc_semaphore := cc_semaphore s - 1\<rparr>"
  | (deferunlock) "pc w = CC_DeferUnlock" and "w' = w\<lparr>pc := CC_DeferDone\<rparr>"
      and "s1 = s\<lparr>cc_errorLock := False\<rparr>"
  | (deferdone) "pc w = CC_DeferDone" and "0 < cc_wg s" and "w' = w\<lparr>pc := CC_Exited\<rparr>"
      and "s1 = s\<lparr>cc_wg := cc_wg s - 1\<rparr>"
proof (cases "pc w")
  case CC_Acquire
  then show ?thesis
    using assms acquire unfolding cc_local_def Let_def by (simp split: if_splits)
next
  case CC_Start
  then show ?thesis
    using assms start unfolding cc_local_def Let_def by simp
next
  case CC_InFlight
  then show ?thesis
    using assms compile unfolding cc_local_def Let_def by simp
next
  case CC_ErrLock
  then show ?thesis
    using assms errlock unfolding cc_local_def Let_def by (simp split: if_splits)
next
  case CC_ErrAppend
  then show ?thesis
    using assms errappend unfolding cc_local_def Let_def by simp
next
  case CC_MuLock
  then show ?thesis
    using assms mulock unfolding cc_local_def Let_def by (simp split: if_splits)
next
  case CC_BinAppend
  then show ?thesis
    using assms binappend unfolding cc_local_def Let_def by simp
next
  case CC_MuUnlock
  then show ?thesis
    using assms muunlock unfolding cc_local_def Let_def by simp
next
  case CC_Release
  then show ?thesis
    using assms release unfolding cc_local_def Let_def by (simp split: if_splits)
next
  case CC_DeferUnlock
  then show ?thesis
    using assms deferunlock unfolding cc_local_def Let_def by simp
next
  case CC_DeferDone
  then show ?thesis
    using assms deferdone unfolding cc_local_def Let_def by (simp split: if_splits)
next
  case CC_Exited
  then show ?thesis
    using assms unfolding cc_local_def Let_def by simp
qed

lemma cc_main_stepE:
  assumes "cc_main_step s = Some s'"
  obtains (spawn) j js where "cc_main s = CC_Loop (j # js)"
      and "s' = s\<lparr>cc_main := CC_Loop js, cc_wg := cc_wg s + 1,
             cc_workers := cc_workers s @ [cc_spawn j]\<rparr>"
  | (wait) "cc_main s = CC_Loop []" and "cc_wg s = 0" and "s' = s\<lparr>cc_main := CC_Read\<rparr>"
  | (report) "cc_main s = CC_Read" and "cc_errors s \<noteq> []"
      and "s' = s\<lparr>cc_main := CC_Returned None (cc_err s),
             cc_trace := cc_trace s
               @ [Stderr (''\<newline>'' @ show_nat (length (cc_errors s)) @ '' errors occurred:\<newline>'')]
               @ map (\<lambda>e. Stderr (''--> '' @ e @ ''\<newline>'')) (cc_errors s)\<rparr>"
  | (clean) "cc_main s = CC_Read" and "cc_errors s = []"
      and "s' = s\<lparr>cc_main := CC_Returned (Some (cc_binPaths s)) None\<rparr>"
proof (cases "cc_main s")
  case (CC_Loop js)
  show ?thesis
  proof (cases js)
    case Nil
    then show ?thesis
      using assms CC_Loop wait unfolding cc_main_step_def by (simp split: if_splits)
  next
    case (Cons j js')
    then show ?thesis
      using assms CC_Loop spawn unfolding cc_main_step_def by simp
  qed
next
  case CC_Read
  show ?thesis
  proof (cases "cc_errors s = []")
    case True
    then show ?thesis
      using assms CC_Read clean unfolding cc_main_step_def by simp
  next
    case False
    then show ?thesis
      using assms CC_Read report unfolding cc_main_step_def by simp
  qed
next
  case (CC_Returned bs e)
  then show ?thesis
    using assms unfolding cc_main_step_def by simp
qed

lemma cc_local_frame:
  assumes "cc_local W F w s = Some (w', s1)"
  shows "cc_workers s1 = cc_workers s \<and> cc_main s1 = cc_main s
     \<and> cc_capacity s1 = cc_capacity s \<and> cc_err s1 = cc_err s
     \<and> cc_job w' = cc_job w \<and> pc w \<noteq> CC_Exited
     \<and> (\<exists>post. cc_trace s1 = cc_trace s @ post \<and> (\<forall>x\<in>set post. \<not> is_Stderr x))"
  using assms by (cases rule: cc_localE) (simp_all add: cc_job_def is_Stderr_def)

lemma cc_local_counts:
  assumes "cc_local W F w s = Some (w', s1)"
  shows "int (cc_semaphore s1) = int (cc_semaphore s)
           - (if cc_holding (pc w) then 1 else 0) + (if cc_holding (pc w') then 1 else 0)"
    and "cc_wg s1 = cc_wg s
           - (if pc w \<noteq> CC_Exited then 1 else 0) + (if pc w' \<noteq> CC_Exited then 1 else 0)"
    and "cc_semaphore s \<le> cc_capacity s \<Longrightarrow> cc_semaphore s1 \<le> cc_capacity s1"
  using assms by (cases rule: cc_localE; simp add: cc_holding_def)+

lemma mk_opts_update [simp]:
  "mk_opts W F (w\<lparr>pc := c\<rparr>) = mk_opts W F w"
  "mk_opts W F (w\<lparr>binName := b\<rparr>) = mk_opts W F w"
  "mk_opts W F (w\<lparr>werr := e\<rparr>) = mk_opts W F w"
  by (simp_all add: mk_opts_def)

lemma cc_local_wok:
  assumes "cc_local W F w s = Some (w', s1)" and "cc_wok W F w"
  shows "cc_wok W F w'"
  using assms
  by (cases rule: cc_localE) (auto simp: cc_wok_def cc_compiled_def prod_eq_iff)

lemma cc_local_errors:
  assumes "cc_local W F w s = Some (w', s1)" and "cc_wok W F w"
  shows "(cc_err_appended w' = cc_err_appended w
            \<and> (cc_err_appended w' \<longrightarrow> cc_errmsg w' = cc_errmsg w)
            \<and> cc_errors s1 = cc_errors s)
         \<or> (\<not> cc_err_appended w \<and> cc_err_appended w'
            \<and> cc_errors s1 = cc_errors s @ [cc_errmsg w'])"
  using assms
  by (cases rule: cc_localE) (auto simp: cc_err_appended_def cc_errmsg_def cc_wok_def)

lemma cc_local_binPaths:
  assumes "cc_local W F w s = Some (w', s1)"
  shows "(cc_bin_appended w' = cc_bin_appended w
            \<and> (cc_bin_appended w' \<longrightarrow> cc_artifact W w' = cc_artifact W w)
            \<and> cc_binPaths s1 = cc_binPaths s)
         \<or> (\<not> cc_bin_appended w \<and> cc_bin_appended w'
            \<and> cc_binPaths s1 = cc_binPaths s @ [cc_artifact W w'])"
  using assms
  by (cases rule: cc_localE) (auto simp: cc_bin_appended_def cc_artifact_def)

lemma cc_counts_update:
  assumes "cc_counts s" and "i < length (cc_workers s)"
    and "cc_capacity s1 = cc_capacity s" and "cc_err s1 = cc_err s"
    and "int (cc_semaphore s1) = int (cc_semaphore s)
           - (if cc_holding (pc (cc_workers s ! i)) then 1 else 0)
           + (if cc_holding (pc w') then 1 else 0)"
    and "cc_wg s1 = cc_wg s
           - (if pc (cc_workers s ! i) \<noteq> CC_Exited then 1 else 0)
           + (if pc w' \<noteq> CC_Exited then 1 else 0)"
    and "cc_semaphore s1 \<le> cc_capacity s1"
  shows "cc_counts (s1\<lparr>cc_workers := (cc_workers s)[i := w']\<rparr>)"
proof -
  have "cnt (\<lambda>w. cc_holding (pc w)) ((cc_workers s)[i := w']) = int (cc_semaphore s1)"
    using assms(1,5) cnt_update [OF assms(2), of "\<lambda>w. cc_holding (pc w)" w']
    unfolding cc_counts_def by linarith
  moreover have "cnt (\<lambda>w. pc w \<noteq> CC_Exited) ((cc_workers s)[i := w']) = cc_wg s1"
    using assms(1,6) cnt_update [OF assms(2), of "\<lambda>w. pc w \<noteq> CC_Exited" w']
    unfolding cc_counts_def by linarith
  ultimately show ?thesis
    using assms(1,3,4,7) unfolding cc_counts_def by simp
qed

lemma cc_counts_worker:
  assumes "cc_counts s" and "i < length (cc_workers s)"
    and "cc_local W F (cc_workers s ! i) s = Some (w', s1)"
  shows "cc_counts (s1\<lparr>cc_workers := (cc_workers s)[i := w']\<rparr>)"
proof -
  note fr = cc_local_frame [OF assms(3)]
  have "cc_semaphore s \<le> cc_capacity s"
    using assms(1) by (simp add: cc_counts_def)
  then have "cc_semaphore s1 \<le> cc_capacity s1"
    by (rule cc_local_counts(3) [OF assms(3)])
  then show ?thesis
    using assms(1,2) fr cc_local_counts(1,2) [OF assms(3)]
    by (intro cc_counts_update) simp_all
qed

lemma cc_inv_worker:
  assumes "cc_inv W F jobs s" and "cc_worker_step W F i s = Some s'"
  shows "cc_inv W F jobs s'"
proof -
  from assms(2) obtain w' s1 where i: "i < length (cc_workers s)"
    and loc: "cc_local W F (cc_workers s ! i) s = Some (w', s1)"
    and s': "s' = s1\<lparr>cc_workers := (cc_workers s)[i := w']\<rparr>"
    by (rule cc_worker_stepE)
  have w_in: "cc_workers s ! i \<in> set (cc_workers s)"
    using i by simp
  have inv: "cc_counts s"
    "cc_past_wait (cc_main s) \<longrightarrow> (\<forall>w\<in>set (cc_workers s). pc w = CC_Exited)"
    "map cc_job (cc_workers s) @ cc_pending (cc_main s) = jobs"
    "\<forall>w\<in>set (cc_workers s). cc_wok W F w"
    "mset (cc_errors s) = contrib cc_errmsg cc_err_appended (cc_workers s)"
    "mset (cc_binPaths s) = contrib (cc_artifact W) cc_bin_appended (cc_workers s)"
    using assms(1) by (simp_all add: cc_inv_def)
  have wok: "cc_wok W F (cc_workers s ! i)"
    using inv(4) w_in by blast
  note fr = cc_local_frame [OF loc]
  have not_past: "\<not> cc_past_wait (cc_main s)"
    using inv(2) w_in fr by blast
  have ws': "cc_workers s' = (cc_workers s)[i := w']"
    by (simp add: s')
  have 1: "cc_counts s'"
    unfolding s' using inv(1) i loc by (rule cc_counts_worker)
  have 2: "cc_main s' = cc_main s"
    using fr by (simp add: s')
  have "cc_job w' = cc_job (cc_workers s ! i)"
    using fr by simp
  then have 3: "map cc_job (cc_workers s') = map cc_job (cc_workers s)"
    using i unfolding ws' by (rule map_update_same [rotated])
  have 4: "\<forall>x\<in>set (cc_workers s'). cc_wok W F x"
    unfolding ws' using inv(4) cc_local_wok [OF loc wok] by (rule ball_update)
  have "mset (cc_errors s1) = contrib cc_errmsg cc_err_appended ((cc_workers s)[i := w'])"
    using i inv(5) cc_local_errors [OF loc wok] by (rule contrib_step)
  then have 5: "mset (cc_errors s') = contrib cc_errmsg cc_err_appended (cc_workers s')"
    by (simp add: s')
  have "mset (cc_binPaths s1) = contrib (cc_artifact W) cc_bin_appended ((cc_workers s)[i := w'])"
    using i inv(6) cc_local_binPaths [OF loc] by (rule contrib_step)
  then have 6: "mset (cc_binPaths s') = contrib (cc_artifact W) cc_bin_appended (cc_workers s')"
    by (simp add: s')
  show ?thesis
    unfolding cc_inv_def using 1 2 3 4 5 6 not_past inv(3) by simp
qed

lemma cc_spawn_facts [simp]:
  "pc (cc_spawn j) = CC_Acquire"
  "cc_job (cc_spawn j) = j"
  "cc_wok W F (cc_spawn j)"
  "\<not> cc_err_appended (cc_spawn j)"
  "\<not> cc_bin_appended (cc_spawn j)"
  by (simp_all add: cc_spawn_def cc_job_def cc_wok_def cc_compiled_def cc_err_appended_def
        cc_bin_appended_def)

lemma cc_inv_main:
  assumes "cc_inv W F jobs s" and "cc_main_step s = Some s'"
  shows "cc_inv W F jobs s'"
  using assms(2,1)
proof (cases rule: cc_main_stepE)
  case (spawn j js)
  then show ?thesis
    using assms(1)
    by (simp add: cc_inv_def cc_counts_def cc_pending_def cc_past_wait_def cc_holding_def)
next
  case wait
  then have "\<forall>w\<in>set (cc_workers s). pc w = CC_Exited"
    using assms(1) by (simp add: cc_inv_def cc_counts_def cnt_zero_iff)
  then show ?thesis
    using assms(1) wait by (simp add: cc_inv_def cc_counts_def cc_pending_def)
next
  case report
  then show ?thesis
    using assms(1) by (simp add: cc_inv_def cc_counts_def cc_pending_def cc_past_wait_def)
next
  case clean
  then show ?thesis
    using assms(1) by (simp add: cc_inv_def cc_counts_def cc_pending_def cc_past_wait_def)
qed

lemma cc_inv_step:
  assumes "cc_inv W F jobs s" and "cc_step W F e s = Some s'"
  shows "cc_inv W F jobs s'"
proof (cases e)
  case Main
  then show ?thesis using assms cc_inv_main [of W F jobs s s'] by simp
next
  case (Worker i)
  then show ?thesis using assms cc_inv_worker [of W F jobs s i s'] by simp
next
  case (Reader i)
  then show ?thesis using assms by simp
qed

lemma cc_inv_exec:
  "cc_inv W F jobs s \<Longrightarrow> cc_exec W F es s = Some s' \<Longrightarrow> cc_inv W F jobs s'"
proof (induction es arbitrary: s)
  case Nil
  then show ?case by simp
next
  case (Cons e es)
  then obtain s1 where "cc_step W F e s = Some s1" and "cc_exec W F es s1 = Some s'"
    by (auto split: option.splits)
  then show ?case
    using Cons.IH [of s1] Cons.prems(1) cc_inv_step by blast
qed

section \<open>Runs of the two functions\<close>

lemma resolveParallel_pos: "1 \<le> resolveParallel par cpus goos"
  by (simp add: resolveParallel_def Let_def)

lemma CrossCompile_begin_dispatchD:
  assumes "CrossCompile_begin W = CC_Dispatch F s0"
  shows "\<exists>jobs t. s0 = \<lparr>cc_main = CC_Loop jobs, cc_workers = [], cc_semaphore = 0,
            cc_capacity = nat (resolveParallel (parallel F) (NumCPU W) (GOOS W)), cc_wg = 0,
            cc_errorLock = False, cc_mu = False, cc_errors = [], cc_binPaths = [],
            cc_err = None, cc_trace = t\<rparr>
          \<and> (\<forall>x\<in>set t. \<not> is_Stderr x)"
  using assms unfolding CrossCompile_begin_def Let_def
  by (auto split: sum.splits option.splits if_splits simp: is_Stderr_def)

lemma cc_begin_inv:
  assumes "CrossCompile_begin W = CC_Dispatch F s0"
  shows "cc_inv W F (cc_pending (cc_main s0)) s0"
    and "cc_capacity s0 = nat (resolveParallel (parallel F) (NumCPU W) (GOOS W))"
  using CrossCompile_begin_dispatchD [OF assms]
  by (auto simp: cc_inv_def cc_counts_def cc_past_wait_def cc_pending_def)

lemma mainBuildToolchain_beginD:
  assumes "mainBuildToolchain_begin W par pf verb t0 = BT_Dispatch s0"
  shows "\<exists>ps pre. s0 = \<lparr>bt_main = BT_Loop ps, bt_workers = [], bt_semaphore = 0,
            bt_capacity = 1, bt_wg = 0, bt_errorLock = False, bt_errs = [], bt_err = None,
            bt_trace = pre @ (if 1 < par then serial_notice else [])\<rparr>"
  using assms unfolding mainBuildToolchain_begin_def Let_def
  by (auto split: sum.splits option.splits if_splits)

lemma bt_begin_inv:
  assumes "mainBuildToolchain_begin W par pf verb t0 = BT_Dispatch s0"
  shows "bt_inv verb s0" and "bt_capacity s0 = 1"
  using mainBuildToolchain_beginD [OF assms]
  by (auto simp: bt_inv_def bt_counts_def)

lemma cc_step_capacity:
  assumes "cc_step W F e s = Some s'"
  shows "cc_capacity s' = cc_capacity s"
proof (cases e)
  case Main
  then have "cc_main_step s = Some s'"
    using assms by simp
  then show ?thesis
    by (cases rule: cc_main_stepE) simp_all
next
  case (Worker i)
  then have "cc_worker_step W F i s = Some s'"
    using assms by simp
  then show ?thesis
    by (elim cc_worker_stepE) (use cc_local_frame in fastforce)
next
  case (Reader i)
  then show ?thesis
    using assms by simp
qed

lemma cc_exec_capacity:
  "cc_exec W F es s = Some s' \<Longrightarrow> cc_capacity s' = cc_capacity s"
proof (induction es arbitrary: s)
  case Nil
  then show ?case by simp
next
  case (Cons e es)
  then obtain s1 where "cc_step W F e s = Some s1" and "cc_exec W F es s1 = Some s'"
    by (auto split: option.splits)
  then show ?case
    using Cons.IH [of s1] cc_step_capacity [of W F e s s1] by simp
qed

lemma cc_counts_bound:
  assumes "cc_counts s"
  shows "length (filter (\<lambda>w. pc w = CC_InFlight) (cc_workers s)) \<le> cc_semaphore s"
    and "cc_semaphore s = length (filter (\<lambda>w. cc_holding (pc w)) (cc_workers s))"
    and "cc_semaphore s \<le> cc_capacity s"
proof -
  have "cnt (\<lambda>w. pc w = CC_InFlight) (cc_workers s) \<le> cnt (\<lambda>w. cc_holding (pc w)) (cc_workers s)"
    by (rule cnt_mono) (simp add: cc_holding_def)
  then show "length (filter (\<lambda>w. pc w = CC_InFlight) (cc_workers s)) \<le> cc_semaphore s"
    using assms by (simp add: cc_counts_def cnt_def)
  show "cc_semaphore s = length (filter (\<lambda>w. cc_holding (pc w)) (cc_workers s))"
    using assms by (simp add: cc_counts_def cnt_def)
  show "cc_semaphore s \<le> cc_capacity s"
    using assms by (simp add: cc_counts_def)
qed

lemma bt_counts_bound:
  assumes "bt_counts s"
  shows "length (filter (\<lambda>w. bpc w = BT_Wait) (bt_workers s)) \<le> bt_semaphore s"
    and "bt_semaphore s = length (filter (\<lambda>w. bt_holding (bpc w)) (bt_workers s))"
    and "bt_semaphore s \<le> bt_capacity s"
proof -
  have "cnt (\<lambda>w. bpc w = BT_Wait) (bt_workers s) \<le> cnt (\<lambda>w. bt_holding (bpc w)) (bt_workers s)"
    by (rule cnt_mono) (simp add: bt_holding_def)
  then show "length (filter (\<lambda>w. bpc w = BT_Wait) (bt_workers s)) \<le> bt_semaphore s"
    using assms by (simp add: bt_counts_def cnt_def)
  show "bt_semaphore s = length (filter (\<lambda>w. bt_holding (bpc w)) (bt_workers s))"
    using assms by (simp add: bt_counts_def cnt_def)
  show "bt_semaphore s \<le> bt_capacity s"
    using assms by (simp add: bt_counts_def)
qed

lemma stderr_of_append [simp]: "stderr_of (xs @ ys) = stderr_of xs @ stderr_of ys"
  by (simp add: stderr_of_def)

lemma stderr_of_Nil [simp]: "stderr_of [] = []"
  by (simp add: stderr_of_def)

lemma stderr_of_Cons [simp]:
  "stderr_of (Stderr m # t) = m # stderr_of t"
  "stderr_of (Stdout m # t) = stderr_of t"
  "stderr_of (Called c # t) = stderr_of t"
  by (simp_all add: stderr_of_def)

lemma stderr_of_map_Stderr [simp]: "stderr_of (map (\<lambda>e. Stderr (f e)) xs) = map f xs"
  by (induction xs) simp_all

lemma stderr_of_quiet: "\<forall>x\<in>set t. \<not> is_Stderr x \<Longrightarrow> stderr_of t = []"
  by (induction t) (auto simp: is_Stderr_def stderr_of_def split: effect.splits)

lemma cc_final_worker:
  assumes "cc_inv W F jobs s" and "cc_final s" and "cc_worker_step W F i s = Some s'"
  shows "cc_final s'"
proof -
  from assms(3) obtain w' s1 where i: "i < length (cc_workers s)"
    and loc: "cc_local W F (cc_workers s ! i) s = Some (w', s1)"
    and s': "s' = s1\<lparr>cc_workers := (cc_workers s)[i := w']\<rparr>"
    by (rule cc_worker_stepE)
  note fr = cc_local_frame [OF loc]
  have "cc_workers s ! i \<in> set (cc_workers s)"
    using i by simp
  then have "\<not> cc_past_wait (cc_main s)"
    using assms(1) fr unfolding cc_inv_def by blast
  then obtain js where m: "cc_main s = CC_Loop js"
    by (cases "cc_main s") (simp_all add: cc_past_wait_def)
  obtain post where "cc_trace s1 = cc_trace s @ post" and "\<forall>x\<in>set post. \<not> is_Stderr x"
    using fr by blast
  then have "stderr_of (cc_trace s') = stderr_of (cc_trace s)"
    by (simp add: s' stderr_of_quiet)
  then show ?thesis
    using assms(2) m fr by (simp add: cc_final_def s')
qed

lemma cc_final_main:
  assumes "cc_inv W F jobs s" and "cc_final s" and "cc_main_step s = Some s'"
  shows "cc_final s'"
  using assms(3)
proof (cases rule: cc_main_stepE)
  case (spawn j js)
  then show ?thesis using assms(2) by (simp add: cc_final_def)
next
  case wait
  then show ?thesis using assms(2) by (simp add: cc_final_def)
next
  case report
  then show ?thesis
    using assms(1,2) by (simp add: cc_final_def cc_report_def cc_inv_def cc_counts_def)
next
  case clean
  then show ?thesis
    using assms(1,2) by (simp add: cc_final_def cc_report_def)
qed

lemma cc_final_exec:
  "cc_inv W F jobs s \<Longrightarrow> cc_final s \<Longrightarrow> cc_exec W F es s = Some s' \<Longrightarrow> cc_final s'"
proof (induction es arbitrary: s)
  case Nil
  then show ?case by simp
next
  case (Cons e es)
  then obtain s1 where st: "cc_step W F e s = Some s1" and ex: "cc_exec W F es s1 = Some s'"
    by (auto split: option.splits)
  have "cc_final s1"
  proof (cases e)
    case Main
    then show ?thesis using st Cons.prems(1,2) cc_final_main [of W F jobs s s1] by simp
  next
    case (Worker i)
    then show ?thesis using st Cons.prems(1,2) cc_final_worker [of W F jobs s i s1] by simp
  next
    case (Reader i)
    then show ?thesis using st by simp
  qed
  moreover have "cc_inv W F jobs s1"
    using Cons.prems(1) st by (rule cc_inv_step)
  ultimately show ?case
    using Cons.IH [of s1] ex by simp
qed

lemma mk_opts_job: "mk_opts W F (cc_spawn (cc_job w)) = mk_opts W F w"
  by (simp add: mk_opts_def cc_spawn_def cc_job_def)

lemma cc_job_sel [simp]: "fst (cc_job w) = platform w" "snd (cc_job w) = path w"
  by (simp_all add: cc_job_def)




lemma cc_begin_final:
  assumes "CrossCompile_begin W = CC_Dispatch F s0"
  shows "cc_final s0"
  using assms unfolding CrossCompile_begin_def Let_def
  by (auto split: sum.splits option.splits if_splits simp: cc_final_def)

lemma CrossCompile_dispatchE:
  assumes "CrossCompile_begin W = CC_Dispatch F s0"
    and "CrossCompile W sched = Some (Returned (bs, e) t)"
  obtains s where "cc_exec W F sched s0 = Some s" and "cc_main s = CC_Returned bs e"
    and "cc_trace s = t"
  using assms unfolding CrossCompile_def
  by (auto split: option.splits cc_main_pc.splits)

lemma CrossCompile_error_nil:
  assumes "CrossCompile_begin W = CC_Dispatch F s0"
    and "CrossCompile W sched = Some (Returned (bs, e) t)"
  shows "e = None"
proof -
  from assms obtain s where ex: "cc_exec W F sched s0 = Some s"
    and m: "cc_main s = CC_Returned bs e"
    by (rule CrossCompile_dispatchE)
  have "cc_final s"
    using cc_begin_inv(1) [OF assms(1)] cc_begin_final [OF assms(1)] ex
    by (rule cc_final_exec)
  then show ?thesis
    using m by (simp add: cc_final_def)
qed

lemma cc_barrier:
  assumes "CrossCompile_begin W = CC_Dispatch F s0" and "cc_exec W F sched s0 = Some s"
    and "cc_past_wait (cc_main s)"
  shows "(\<forall>w\<in>set (cc_workers s). pc w = CC_Exited) \<and> cc_worker_step W F i s = None"
proof -
  have "cc_inv W F (cc_pending (cc_main s0)) s"
    using cc_begin_inv(1) [OF assms(1)] assms(2) by (rule cc_inv_exec)
  then have ex: "\<forall>w\<in>set (cc_workers s). pc w = CC_Exited"
    using assms(3) by (simp add: cc_inv_def)
  have "cc_worker_step W F i s = None"
  proof (cases "cc_worker_step W F i s")
    case None
    then show ?thesis .
  next
    case (Some s')
    then obtain w' s1 where i: "i < length (cc_workers s)"
      and loc: "cc_local W F (cc_workers s ! i) s = Some (w', s1)"
      by (rule cc_worker_stepE)
    have "pc (cc_workers s ! i) \<noteq> CC_Exited"
      using cc_local_frame [OF loc] by simp
    then show ?thesis
      using ex i by simp
  qed
  then show ?thesis
    using ex by simp
qed

lemma mainBuildToolchain_error_nil:
  assumes "mainBuildToolchain_begin W par pf verb t0 = BT_Dispatch s0"
    and "mainBuildToolchain W par pf verb t0 sched = Some (Returned e t)"
  shows "e = None"
proof -
  from assms obtain s where ex: "bt_exec W verb sched s0 = Some s"
    and m: "bt_main s = BT_Returned e"
    unfolding mainBuildToolchain_def
    by (auto split: option.splits bt_main_pc.splits)
  have "bt_inv verb s"
    using bt_begin_inv(1) [OF assms(1)] ex by (rule bt_inv_exec)
  then show ?thesis
    using m by (simp add: bt_inv_def bt_counts_def)
qed

section \<open>Every dispatch can be completed\<close>

text \<open>A lock that is held is held by a worker that can move, a worker that waits for
  a permit finds one when no worker holds one, and every step brings the goroutines
  closer to their ends: no state of a dispatch is a deadlock, and no run goes on for
  ever.\<close>

lemma ex_update_other:
  assumes "\<exists>x\<in>set xs. P x" and "\<not> P (xs ! i)"
  shows "\<exists>x\<in>set (xs[i := y]). P x"
proof -
  from assms(1) obtain j where j: "j < length xs" and p: "P (xs ! j)"
    by (auto simp: in_set_conv_nth)
  then have "j \<noteq> i"
    using assms(2) by auto
  then have "xs[i := y] ! j = xs ! j"
    by simp
  then show ?thesis
    using j p by (metis length_list_update nth_mem)
qed

lemma ex_update_self:
  assumes "i < length xs" and "P y"
  shows "\<exists>x\<in>set (xs[i := y]). P x"
  using assms by (metis length_list_update nth_list_update_eq nth_mem)

lemma sum_list_update_less:
  "i < length xs \<Longrightarrow> f y < f (xs ! i) \<Longrightarrow>
     sum_list (map f (xs[i := y])) < sum_list (map (f :: 'a \<Rightarrow> nat) xs)"
proof (induction xs arbitrary: i)
  case Nil
  then show ?case by simp
next
  case (Cons x xs)
  then show ?case by (cases i) auto
qed

lemma cc_local_mu:
  assumes "cc_local W F w s = Some (w', s1)"
  shows "cc_mu s1 \<longrightarrow> cc_mu_holder w' \<or> (cc_mu s \<and> \<not> cc_mu_holder w)"
  using assms by (cases rule: cc_localE) (simp_all add: cc_mu_holder_def)

lemma cc_local_errorLock:
  assumes "cc_local W F w s = Some (w', s1)" and "cc_wok W F w"
  shows "cc_errorLock s1 \<longrightarrow> cc_lock_holder w' \<or> (cc_errorLock s \<and> \<not> cc_lock_holder w)"
  using assms by (cases rule: cc_localE) (auto simp: cc_lock_holder_def cc_wok_def)

lemma cc_local_rank:
  assumes "cc_local W F w s = Some (w', s1)"
  shows "cc_rank (pc w') < cc_rank (pc w)"
  using assms by (cases rule: cc_localE) simp_all

lemma cc_locks_worker:
  assumes "cc_inv W F jobs s" and "cc_locks s" and "cc_worker_step W F i s = Some s'"
  shows "cc_locks s'" and "cc_measure s' < cc_measure s"
proof -
  from assms(3) obtain w' s1 where i: "i < length (cc_workers s)"
    and loc: "cc_local W F (cc_workers s ! i) s = Some (w', s1)"
    and s': "s' = s1\<lparr>cc_workers := (cc_workers s)[i := w']\<rparr>"
    by (rule cc_worker_stepE)
  have wok: "cc_wok W F (cc_workers s ! i)"
    using assms(1) i by (simp add: cc_inv_def)
  note fr = cc_local_frame [OF loc]
  note lk = cc_local_mu [OF loc] cc_local_errorLock [OF loc wok] cc_local_rank [OF loc]
  have mu: "cc_mu s' \<longrightarrow> (\<exists>x\<in>set (cc_workers s'). cc_mu_holder x)"
  proof
    assume "cc_mu s'"
    with lk(1) have "cc_mu_holder w' \<or> (cc_mu s \<and> \<not> cc_mu_holder (cc_workers s ! i))"
      by (simp add: s')
    then show "\<exists>x\<in>set (cc_workers s'). cc_mu_holder x"
    proof
      assume "cc_mu_holder w'"
      then show ?thesis
        using i by (simp add: s' ex_update_self)
    next
      assume a: "cc_mu s \<and> \<not> cc_mu_holder (cc_workers s ! i)"
      then have "\<exists>x\<in>set (cc_workers s). cc_mu_holder x"
        using assms(2) by (simp add: cc_locks_def)
      then show ?thesis
        using a by (simp add: s' ex_update_other)
    qed
  qed
  have el: "cc_errorLock s' \<longrightarrow> (\<exists>x\<in>set (cc_workers s'). cc_lock_holder x)"
  proof
    assume "cc_errorLock s'"
    with lk(2)
    have "cc_lock_holder w' \<or> (cc_errorLock s \<and> \<not> cc_lock_holder (cc_workers s ! i))"
      by (simp add: s')
    then show "\<exists>x\<in>set (cc_workers s'). cc_lock_holder x"
    proof
      assume "cc_lock_holder w'"
      then show ?thesis
        using i by (simp add: s' ex_update_self)
    next
      assume a: "cc_errorLock s \<and> \<not> cc_lock_holder (cc_workers s ! i)"
      then have "\<exists>x\<in>set (cc_workers s). cc_lock_holder x"
        using assms(2) by (simp add: cc_locks_def)
      then show ?thesis
        using a by (simp add: s' ex_update_other)
    qed
  qed
  have "0 < cc_capacity s'"
    using assms(2) fr by (simp add: s' cc_locks_def)
  then show "cc_locks s'"
    using mu el by (simp add: cc_locks_def)
  have "sum_list (map (\<lambda>w. cc_rank (pc w)) ((cc_workers s)[i := w']))
      < sum_list (map (\<lambda>w. cc_rank (pc w)) (cc_workers s))"
    using i lk(3) by (rule sum_list_update_less)
  then show "cc_measure s' < cc_measure s"
    using fr by (simp add: cc_measure_def s')
qed

lemma cc_locks_main:
  assumes "cc_locks s" and "cc_main_step s = Some s'"
  shows "cc_locks s'" and "cc_measure s' < cc_measure s"
  using assms(2,1)
  by (cases rule: cc_main_stepE; auto simp: cc_locks_def cc_measure_def)+

lemma cc_locks_step:
  assumes "cc_inv W F jobs s" and "cc_locks s" and "cc_step W F e s = Some s'"
  shows "cc_locks s' \<and> cc_measure s' < cc_measure s"
proof (cases e)
  case Main
  then show ?thesis using assms cc_locks_main [of s s'] by simp
next
  case (Worker i)
  then show ?thesis using assms cc_locks_worker [of W F jobs s i s'] by simp
next
  case (Reader i)
  then show ?thesis using assms by simp
qed

lemma cc_local_blocked:
  assumes "cc_local W F w s = None"
  shows "(pc w = CC_Acquire \<and> \<not> cc_semaphore s < cc_capacity s)
     \<or> (pc w = CC_ErrLock \<and> cc_errorLock s)
     \<or> (pc w = CC_MuLock \<and> cc_mu s)
     \<or> (pc w = CC_Release \<and> cc_semaphore s = 0)
     \<or> (pc w = CC_DeferDone \<and> cc_wg s \<le> 0)
     \<or> pc w = CC_Exited"
  using assms unfolding cc_local_def Let_def
  by (cases "pc w") (simp_all split: if_splits)

lemma cc_worker_step_SomeI:
  assumes "i < length (cc_workers s)" and "cc_local W F (cc_workers s ! i) s \<noteq> None"
  shows "\<exists>s'. cc_worker_step W F i s = Some s'"
  using assms unfolding cc_worker_step_def by (auto split: option.splits)

lemma cc_some_worker_moves:
  assumes "cc_counts s" and "cc_locks s" and "cc_wg s \<noteq> 0"
  shows "\<exists>w\<in>set (cc_workers s). cc_local W F w s \<noteq> None"
proof (rule ccontr)
  assume "\<not> (\<exists>w\<in>set (cc_workers s). cc_local W F w s \<noteq> None)"
  then have blocked: "\<forall>w\<in>set (cc_workers s).
       (pc w = CC_Acquire \<and> \<not> cc_semaphore s < cc_capacity s)
     \<or> (pc w = CC_ErrLock \<and> cc_errorLock s)
     \<or> (pc w = CC_MuLock \<and> cc_mu s)
     \<or> (pc w = CC_Release \<and> cc_semaphore s = 0)
     \<or> (pc w = CC_DeferDone \<and> cc_wg s \<le> 0)
     \<or> pc w = CC_Exited"
    using cc_local_blocked by blast
  have sem: "int (cc_semaphore s) = cnt (\<lambda>w. cc_holding (pc w)) (cc_workers s)"
    and wg: "cc_wg s = cnt (\<lambda>w. pc w \<noteq> CC_Exited) (cc_workers s)"
    using assms(1) by (simp_all add: cc_counts_def)
  have no_release: "\<forall>w\<in>set (cc_workers s). pc w \<noteq> CC_Release"
  proof (intro ballI notI)
    fix w
    assume w: "w \<in> set (cc_workers s)" and r: "pc w = CC_Release"
    then have "0 < cnt (\<lambda>w. cc_holding (pc w)) (cc_workers s)"
      by (intro cnt_pos [of w]) (simp_all add: cc_holding_def)
    then show False
      using blocked w r sem by auto
  qed
  have no_done: "\<forall>w\<in>set (cc_workers s). pc w \<noteq> CC_DeferDone"
  proof (intro ballI notI)
    fix w
    assume w: "w \<in> set (cc_workers s)" and r: "pc w = CC_DeferDone"
    then have "0 < cnt (\<lambda>w. pc w \<noteq> CC_Exited) (cc_workers s)"
      by (intro cnt_pos [of w]) simp_all
    then show False
      using blocked w r wg by auto
  qed
  have pcs: "\<forall>w\<in>set (cc_workers s). pc w \<in> {CC_Acquire, CC_ErrLock, CC_MuLock, CC_Exited}"
    using blocked no_release no_done by fastforce
  have no_mu: "\<not> cc_mu s"
  proof
    assume "cc_mu s"
    then obtain h where "h \<in> set (cc_workers s)" and "cc_mu_holder h"
      using assms(2) by (auto simp: cc_locks_def)
    then show False
      using pcs by (auto simp: cc_mu_holder_def)
  qed
  have no_lock: "\<not> cc_errorLock s"
  proof
    assume "cc_errorLock s"
    then obtain h where h: "h \<in> set (cc_workers s)" and "cc_lock_holder h"
      using assms(2) by (auto simp: cc_locks_def)
    then have "pc h = CC_MuLock"
      using pcs by (auto simp: cc_lock_holder_def)
    then show False
      using blocked h no_mu by auto
  qed
  have idle: "\<forall>w\<in>set (cc_workers s). pc w = CC_Acquire \<or> pc w = CC_Exited"
    using pcs blocked no_mu no_lock by fastforce
  have "\<forall>w\<in>set (cc_workers s). \<not> cc_holding (pc w)"
  proof
    fix w
    assume "w \<in> set (cc_workers s)"
    then have "pc w = CC_Acquire \<or> pc w = CC_Exited"
      using idle by blast
    then show "\<not> cc_holding (pc w)"
      by (auto simp: cc_holding_def)
  qed
  then have "cnt (\<lambda>w. cc_holding (pc w)) (cc_workers s) = 0"
    by (simp add: cnt_zero_iff)
  then have free: "cc_semaphore s < cc_capacity s"
    using sem assms(2) by (simp add: cc_locks_def)
  have "\<exists>w\<in>set (cc_workers s). pc w \<noteq> CC_Exited"
    using assms(3) wg cnt_zero_iff [of "\<lambda>w. pc w \<noteq> CC_Exited" "cc_workers s"] by auto
  then obtain w where w: "w \<in> set (cc_workers s)" and "pc w = CC_Acquire"
    using idle by blast
  then show False
    using blocked free by auto
qed

lemma cc_progress:
  assumes "cc_inv W F jobs s" and "cc_locks s" and "\<not> (\<exists>bs e. cc_main s = CC_Returned bs e)"
  shows "\<exists>e s'. cc_step W F e s = Some s'"
proof (cases "cc_main s")
  case (CC_Loop js)
  show ?thesis
  proof (cases js)
    case (Cons j js')
    then have "cc_step W F Main s \<noteq> None"
      using CC_Loop by (simp add: cc_main_step_def)
    then show ?thesis by blast
  next
    case Nil
    show ?thesis
    proof (cases "cc_wg s = 0")
      case True
      then have "cc_step W F Main s \<noteq> None"
        using CC_Loop Nil by (simp add: cc_main_step_def)
      then show ?thesis by blast
    next
      case False
      have "cc_counts s"
        using assms(1) by (simp add: cc_inv_def)
      then obtain w where "w \<in> set (cc_workers s)" and m: "cc_local W F w s \<noteq> None"
        using cc_some_worker_moves [OF _ assms(2) False] by blast
      then obtain i where "i < length (cc_workers s)" and "cc_workers s ! i = w"
        by (auto simp: in_set_conv_nth)
      then obtain s' where "cc_worker_step W F i s = Some s'"
        using m cc_worker_step_SomeI [of i s W F] by auto
      then have "cc_step W F (Worker i) s = Some s'"
        by simp
      then show ?thesis by blast
    qed
  qed
next
  case CC_Read
  then have "cc_step W F Main s \<noteq> None"
    by (simp add: cc_main_step_def)
  then show ?thesis by blast
next
  case (CC_Returned bs e)
  then show ?thesis
    using assms(3) by simp
qed

lemma cc_can_finish:
  "cc_inv W F jobs s \<Longrightarrow> cc_locks s \<Longrightarrow>
     \<exists>es s' bs e. cc_exec W F es s = Some s' \<and> cc_main s' = CC_Returned bs e"
proof (induction "cc_measure s" arbitrary: s rule: less_induct)
  case less
  show ?case
  proof (cases "\<exists>bs e. cc_main s = CC_Returned bs e")
    case True
    then obtain bs e where "cc_main s = CC_Returned bs e"
      by blast
    then have "cc_exec W F [] s = Some s \<and> cc_main s = CC_Returned bs e"
      by simp
    then show ?thesis by blast
  next
    case False
    then obtain ev s1 where st: "cc_step W F ev s = Some s1"
      using cc_progress [OF less.prems] by blast
    have "cc_inv W F jobs s1"
      using less.prems(1) st by (rule cc_inv_step)
    moreover have "cc_locks s1 \<and> cc_measure s1 < cc_measure s"
      using less.prems st by (rule cc_locks_step)
    ultimately obtain es s' bs e where "cc_exec W F es s1 = Some s'"
      and "cc_main s' = CC_Returned bs e"
      using less.hyps [of s1] by blast
    then have "cc_exec W F (ev # es) s = Some s' \<and> cc_main s' = CC_Returned bs e"
      using st by simp
    then show ?thesis by blast
  qed
qed

lemma cc_exec_append:
  "cc_exec W F (xs @ ys) s =
     (case cc_exec W F xs s of None \<Rightarrow> None | Some s1 \<Rightarrow> cc_exec W F ys s1)"
  by (induction xs arbitrary: s) (auto split: option.splits)

lemma cc_begin_locks:
  assumes "CrossCompile_begin W = CC_Dispatch F s0"
  shows "cc_locks s0"
  using CrossCompile_begin_dispatchD [OF assms]
    resolveParallel_pos [of "parallel F" "NumCPU W" "GOOS W"]
  by (auto simp: cc_locks_def)

lemma cc_locks_exec:
  "cc_inv W F jobs s \<Longrightarrow> cc_locks s \<Longrightarrow> cc_exec W F es s = Some s' \<Longrightarrow> cc_locks s'"
proof (induction es arbitrary: s)
  case Nil
  then show ?case by simp
next
  case (Cons e es)
  then obtain s1 where st: "cc_step W F e s = Some s1" and ex: "cc_exec W F es s1 = Some s'"
    by (auto split: option.splits)
  have "cc_inv W F jobs s1"
    using Cons.prems(1) st by (rule cc_inv_step)
  moreover have "cc_locks s1"
    using cc_locks_step [OF Cons.prems(1,2) st] by simp
  ultimately show ?case
    using Cons.IH ex by blast
qed


section \<open>The toolchain build can be completed\<close>

text \<open>The same for \<open>mainBuildToolchain\<close>, where a worker may also wait for its reader:
  the reader of a worker that waits for \<open>doneCh\<close> can move, since the pipe is closed,
  and every step of a worker, of a reader and of the main goroutine uses up some of
  the steps that are left.\<close>

lemma bt_local_live:
  assumes "bt_local W verb w s = Some (w', s1)" and "bt_live W verb w"
  shows "bt_live W verb w'"
  using assms
  by (cases rule: bt_localE) (auto simp: bt_live_def bt_deferred_def bt_failed_def)

lemma bt_reader_local_live:
  assumes "bt_reader_local w s = Some (w', s1)" and "bt_live W verb w"
  shows "bt_live W verb w'"
  using assms by (cases rule: bt_reader_localE) (auto simp: bt_live_def)

lemma bt_local_errorLock:
  assumes "bt_local W verb w s = Some (w', s1)"
  shows "bt_errorLock s1 \<longrightarrow> bpc w' \<in> {BT_ErrAppend, BT_ErrUnlock}
     \<or> (bt_errorLock s \<and> bpc w \<notin> {BT_ErrAppend, BT_ErrUnlock})"
  using assms by (cases rule: bt_localE) (simp_all add: bt_deferred_def)

lemma length_tl_dropWhile:
  "x \<in> set xs \<Longrightarrow> length (tl (dropWhile (\<lambda>c. c \<noteq> x) xs)) < length xs"
  by (induction xs) auto

lemma bt_write_todo:
  "length (pipe (bt_write verb c w)) \<le> length (pipe w) + length (snd c)"
  "pending (bt_write verb c w) = pending w"
  by (simp_all add: bt_write_def)

lemma bt_local_todo:
  assumes "bt_local W verb w s = Some (w', s1)"
  shows "bt_todo W w' < bt_todo W w"
  using assms
proof (cases rule: bt_localE)
  case (emit c cs)
  then show ?thesis
    using bt_write_todo(1) [of verb c w] by (simp add: bt_todo_def script_size_def)
qed (simp_all add: bt_todo_def bt_deferred_def script_size_def)

lemma bt_reader_local_todo:
  assumes "bt_reader_local w s = Some (w', s1)"
  shows "bt_todo W w' < bt_todo W w"
proof (cases "CHR 0x0A \<in> set (pipe w)")
  case True
  then have "w' = w\<lparr>pipe := tl (dropWhile (\<lambda>c. c \<noteq> CHR 0x0A) (pipe w))\<rparr>"
    using assms unfolding bt_reader_local_def Let_def by (simp split: if_splits)
  then show ?thesis
    using length_tl_dropWhile [OF True] by (simp add: bt_todo_def)
next
  case False
  show ?thesis
  proof (cases "pipe w = []")
    case True
    then have "reading w \<and> w' = w\<lparr>reading := False, doneCh := True\<rparr>"
      using assms unfolding bt_reader_local_def Let_def by (simp split: if_splits)
    then show ?thesis
      by (simp add: bt_todo_def)
  next
    case ne: False
    then have "w' = w\<lparr>pipe := []\<rparr>"
      using assms False unfolding bt_reader_local_def Let_def by (simp split: if_splits)
    then show ?thesis
      using ne by (simp add: bt_todo_def)
  qed
qed

lemma bt_worker_stepI:
  assumes "i < length (bt_workers s)" and "bt_local W verb (bt_workers s ! i) s \<noteq> None"
  shows "\<exists>s'. bt_worker_step W verb i s = Some s'"
  using assms unfolding bt_worker_step_def by (auto split: option.splits)

lemma bt_reader_stepI:
  assumes "i < length (bt_workers s)" and "bt_reader_local (bt_workers s ! i) s \<noteq> None"
  shows "\<exists>s'. bt_reader_step i s = Some s'"
  using assms unfolding bt_reader_step_def by (auto split: option.splits)

lemma bt_local_blocked:
  assumes "bt_local W verb w s = None"
  shows "(bpc w = BT_Acquire \<and> \<not> bt_semaphore s < bt_capacity s)
     \<or> (bpc w = BT_AwaitDone \<and> \<not> doneCh w)
     \<or> (bpc w = BT_Release \<and> bt_semaphore s = 0)
     \<or> (bpc w = BT_WgDone \<and> bt_wg s \<le> 0)
     \<or> (bpc w = BT_ErrLock \<and> bt_errorLock s)
     \<or> bpc w = BT_Exited"
  using assms unfolding bt_local_def Let_def
  by (cases "bpc w") (simp_all split: if_splits option.splits list.splits)

lemma bt_reader_local_blocked:
  assumes "bt_reader_local w s = None"
  shows "\<not> reading w \<or> \<not> w_closed w"
  using assms unfolding bt_reader_local_def Let_def
  by (simp split: if_splits)


lemma bt_locks_update:
  assumes "bt_locks W verb ps s" and "i < length (bt_workers s)"
    and "bt_workers s1 = bt_workers s" and "bt_main s1 = bt_main s"
    and "bt_capacity s1 = bt_capacity s"
    and "bplatform w' = bplatform (bt_workers s ! i)"
    and "bt_live W verb w'"
    and "bt_errorLock s1 \<longrightarrow> bpc w' \<in> {BT_ErrAppend, BT_ErrUnlock}
       \<or> (bt_errorLock s \<and> bpc (bt_workers s ! i) \<notin> {BT_ErrAppend, BT_ErrUnlock})"
  shows "bt_locks W verb ps (s1\<lparr>bt_workers := (bt_workers s)[i := w']\<rparr>)"
proof -
  let ?P = "\<lambda>w. bpc w \<in> {BT_ErrAppend, BT_ErrUnlock}"
  have el: "bt_errorLock s1 \<longrightarrow> (\<exists>x\<in>set ((bt_workers s)[i := w']). ?P x)"
  proof
    assume "bt_errorLock s1"
    with assms(8) have "?P w' \<or> (bt_errorLock s \<and> \<not> ?P (bt_workers s ! i))"
      by simp
    then show "\<exists>x\<in>set ((bt_workers s)[i := w']). ?P x"
    proof
      assume "?P w'"
      with assms(2) show ?thesis
        by (rule ex_update_self)
    next
      assume a: "bt_errorLock s \<and> \<not> ?P (bt_workers s ! i)"
      then have "\<exists>x\<in>set (bt_workers s). ?P x"
        using assms(1) by (simp add: bt_locks_def)
      then show ?thesis
        using a by (simp add: ex_update_other)
    qed
  qed
  have "\<forall>x\<in>set (bt_workers s). bt_live W verb x"
    using assms(1) by (simp add: bt_locks_def)
  then have lv: "\<forall>x\<in>set ((bt_workers s)[i := w']). bt_live W verb x"
    using assms(7) by (rule ball_update)
  have "map bplatform ((bt_workers s)[i := w']) = map bplatform (bt_workers s)"
    using assms(2,6) by (rule map_update_same)
  then show ?thesis
    using assms(1,4,5) el lv by (simp add: bt_locks_def)
qed

lemma bt_locks_worker:
  assumes "bt_locks W verb ps s" and "bt_worker_step W verb i s = Some s'"
  shows "bt_locks W verb ps s'" and "bt_measure W s' < bt_measure W s"
proof -
  from assms(2) obtain w' s1 where i: "i < length (bt_workers s)"
    and loc: "bt_local W verb (bt_workers s ! i) s = Some (w', s1)"
    and s': "s' = s1\<lparr>bt_workers := (bt_workers s)[i := w']\<rparr>"
    by (rule bt_worker_stepE)
  note fr = bt_local_frame [OF loc]
  have "bt_live W verb (bt_workers s ! i)"
    using assms(1) i by (simp add: bt_locks_def)
  then have "bt_live W verb w'"
    by (rule bt_local_live [OF loc])
  then show "bt_locks W verb ps s'"
    unfolding s' using assms(1) i fr bt_local_errorLock [OF loc]
    by (intro bt_locks_update) simp_all
  have "sum_list (map (bt_todo W) ((bt_workers s)[i := w'])) < sum_list (map (bt_todo W) (bt_workers s))"
    using i bt_local_todo [OF loc] by (rule sum_list_update_less)
  then show "bt_measure W s' < bt_measure W s"
    using fr by (simp add: bt_measure_def s')
qed

lemma bt_locks_reader:
  assumes "bt_locks W verb ps s" and "bt_reader_step i s = Some s'"
  shows "bt_locks W verb ps s'" and "bt_measure W s' < bt_measure W s"
proof -
  from assms(2) obtain w' s1 where i: "i < length (bt_workers s)"
    and loc: "bt_reader_local (bt_workers s ! i) s = Some (w', s1)"
    and s': "s' = s1\<lparr>bt_workers := (bt_workers s)[i := w']\<rparr>"
    by (rule bt_reader_stepE)
  note fr = bt_reader_local_frame [OF loc]
  have "bt_live W verb (bt_workers s ! i)"
    using assms(1) i by (simp add: bt_locks_def)
  then have lv: "bt_live W verb w'"
    by (rule bt_reader_local_live [OF loc])
  have "bt_errorLock s1 \<longrightarrow> bpc w' \<in> {BT_ErrAppend, BT_ErrUnlock}
       \<or> (bt_errorLock s \<and> bpc (bt_workers s ! i) \<notin> {BT_ErrAppend, BT_ErrUnlock})"
    using fr by auto
  then show "bt_locks W verb ps s'"
    unfolding s' using assms(1) i fr lv
    by (intro bt_locks_update) simp_all
  have "sum_list (map (bt_todo W) ((bt_workers s)[i := w'])) < sum_list (map (bt_todo W) (bt_workers s))"
    using i bt_reader_local_todo [OF loc] by (rule sum_list_update_less)
  then show "bt_measure W s' < bt_measure W s"
    using fr by (simp add: bt_measure_def s')
qed

lemma bt_spawn_progress [simp]:
  "bt_live W verb (bt_spawn p)"
  "bt_todo W (bt_spawn p) = 14 + script_size (writes (script W p))"
  by (simp_all add: bt_live_def bt_todo_def bt_spawn_def script_size_def)

lemma bt_locks_main:
  assumes "bt_locks W verb ps s" and "bt_main_step s = Some s'"
  shows "bt_locks W verb ps s'" and "bt_measure W s' < bt_measure W s"
  using assms(2,1)
  by (cases rule: bt_main_stepE; auto simp: bt_locks_def bt_measure_def bt_pending_def)+

lemma bt_locks_step:
  assumes "bt_locks W verb ps s" and "bt_step W verb e s = Some s'"
  shows "bt_locks W verb ps s' \<and> bt_measure W s' < bt_measure W s"
proof (cases e)
  case Main
  then show ?thesis using assms bt_locks_main [of W verb ps s s'] by simp
next
  case (Worker i)
  then show ?thesis using assms bt_locks_worker [of W verb ps s i s'] by simp
next
  case (Reader i)
  then show ?thesis using assms bt_locks_reader [of W verb ps s i s'] by simp
qed


lemma bt_some_goroutine_moves:
  assumes "bt_counts s" and "bt_locks W verb ps s"
    and "\<exists>w\<in>set (bt_workers s). bpc w \<noteq> BT_Exited"
  shows "\<exists>w\<in>set (bt_workers s). bt_local W verb w s \<noteq> None \<or> bt_reader_local w s \<noteq> None"
proof (rule ccontr)
  assume "\<not> (\<exists>w\<in>set (bt_workers s). bt_local W verb w s \<noteq> None \<or> bt_reader_local w s \<noteq> None)"
  then have stuck: "\<forall>w\<in>set (bt_workers s). bt_local W verb w s = None"
    and idle: "\<forall>w\<in>set (bt_workers s). bt_reader_local w s = None"
    by blast+
  have blocked: "\<forall>w\<in>set (bt_workers s).
       (bpc w = BT_Acquire \<and> \<not> bt_semaphore s < bt_capacity s)
     \<or> (bpc w = BT_AwaitDone \<and> \<not> doneCh w)
     \<or> (bpc w = BT_Release \<and> bt_semaphore s = 0)
     \<or> (bpc w = BT_WgDone \<and> bt_wg s \<le> 0)
     \<or> (bpc w = BT_ErrLock \<and> bt_errorLock s)
     \<or> bpc w = BT_Exited"
    using stuck bt_local_blocked by blast
  have sem: "int (bt_semaphore s) = cnt (\<lambda>w. bt_holding (bpc w)) (bt_workers s)"
    and wg: "bt_wg s = cnt (\<lambda>w. bt_before_done (bpc w)) (bt_workers s)"
    using assms(1) by (simp_all add: bt_counts_def)
  have live: "\<forall>w\<in>set (bt_workers s). bt_live W verb w"
    using assms(2) by (simp add: bt_locks_def)
  have no_release: "\<forall>w\<in>set (bt_workers s). bpc w \<noteq> BT_Release"
  proof (intro ballI notI)
    fix w
    assume w: "w \<in> set (bt_workers s)" and r: "bpc w = BT_Release"
    then have "0 < cnt (\<lambda>w. bt_holding (bpc w)) (bt_workers s)"
      by (intro cnt_pos [of w]) (simp_all add: bt_holding_def)
    then show False
      using blocked w r sem by auto
  qed
  have no_done: "\<forall>w\<in>set (bt_workers s). bpc w \<noteq> BT_WgDone"
  proof (intro ballI notI)
    fix w
    assume w: "w \<in> set (bt_workers s)" and r: "bpc w = BT_WgDone"
    then have "0 < cnt (\<lambda>w. bt_before_done (bpc w)) (bt_workers s)"
      by (intro cnt_pos [of w]) (simp_all add: bt_before_done_def)
    then show False
      using blocked w r wg by auto
  qed
  have no_await: "\<forall>w\<in>set (bt_workers s). bpc w \<noteq> BT_AwaitDone"
  proof (intro ballI notI)
    fix w
    assume w: "w \<in> set (bt_workers s)" and r: "bpc w = BT_AwaitDone"
    then have "\<not> doneCh w"
      using blocked by auto
    moreover have "verb \<and> w_closed w \<and> (reading w \<or> doneCh w)"
      using live w r by (simp add: bt_live_def)
    ultimately have "reading w \<and> w_closed w"
      by simp
    moreover have "\<not> reading w \<or> \<not> w_closed w"
      using idle w bt_reader_local_blocked by blast
    ultimately show False
      by simp
  qed
  have pcs: "\<forall>w\<in>set (bt_workers s). bpc w \<in> {BT_Acquire, BT_ErrLock, BT_Exited}"
    using blocked no_release no_done no_await by fastforce
  have no_lock: "\<not> bt_errorLock s"
  proof
    assume "bt_errorLock s"
    then obtain h where "h \<in> set (bt_workers s)" and "bpc h \<in> {BT_ErrAppend, BT_ErrUnlock}"
      using assms(2) by (auto simp: bt_locks_def)
    then show False
      using pcs by auto
  qed
  have waiting: "\<forall>w\<in>set (bt_workers s). bpc w = BT_Acquire \<or> bpc w = BT_Exited"
    using pcs blocked no_lock by fastforce
  have "\<forall>w\<in>set (bt_workers s). \<not> bt_holding (bpc w)"
  proof
    fix w
    assume "w \<in> set (bt_workers s)"
    then have "bpc w = BT_Acquire \<or> bpc w = BT_Exited"
      using waiting by blast
    then show "\<not> bt_holding (bpc w)"
      by (auto simp: bt_holding_def)
  qed
  then have "cnt (\<lambda>w. bt_holding (bpc w)) (bt_workers s) = 0"
    by (simp add: cnt_zero_iff)
  then have free: "bt_semaphore s < bt_capacity s"
    using sem assms(2) by (simp add: bt_locks_def)
  obtain w where w: "w \<in> set (bt_workers s)" and "bpc w = BT_Acquire"
    using assms(3) waiting by blast
  then show False
    using blocked free by auto
qed

lemma bt_progress:
  assumes "bt_inv verb s" and "bt_locks W verb ps s" and "\<not> bt_done s"
  shows "\<exists>e s'. bt_step W verb e s = Some s'"
proof -
  have counts: "bt_counts s"
    using assms(1) by (simp add: bt_inv_def)
  have moves: "(\<exists>w\<in>set (bt_workers s). bpc w \<noteq> BT_Exited) \<longrightarrow>
      (\<exists>e s'. bt_step W verb e s = Some s')"
  proof
    assume busy: "\<exists>w\<in>set (bt_workers s). bpc w \<noteq> BT_Exited"
    obtain w where w: "w \<in> set (bt_workers s)"
      and m: "bt_local W verb w s \<noteq> None \<or> bt_reader_local w s \<noteq> None"
      using bt_some_goroutine_moves [OF counts assms(2) busy] by blast
    then obtain i where i: "i < length (bt_workers s)" and wi: "bt_workers s ! i = w"
      by (auto simp: in_set_conv_nth)
    from m show "\<exists>e s'. bt_step W verb e s = Some s'"
    proof
      assume "bt_local W verb w s \<noteq> None"
      then obtain s' where "bt_worker_step W verb i s = Some s'"
        using i wi bt_worker_stepI [of i s W verb] by auto
      then have "bt_step W verb (Worker i) s = Some s'"
        by simp
      then show ?thesis by blast
    next
      assume "bt_reader_local w s \<noteq> None"
      then obtain s' where "bt_reader_step i s = Some s'"
        using i wi bt_reader_stepI [of i s] by auto
      then have "bt_step W verb (Reader i) s = Some s'"
        by simp
      then show ?thesis by blast
    qed
  qed
  show ?thesis
  proof (cases "bt_main s")
    case (BT_Loop qs)
    show ?thesis
    proof (cases qs)
      case (Cons q qs')
      then have "bt_step W verb Main s \<noteq> None"
        using BT_Loop by (simp add: bt_main_step_def)
      then show ?thesis by blast
    next
      case Nil
      show ?thesis
      proof (cases "bt_wg s = 0")
        case True
        then have "bt_step W verb Main s \<noteq> None"
          using BT_Loop Nil by (simp add: bt_main_step_def)
        then show ?thesis by blast
      next
        case False
        then have "cnt (\<lambda>w. bt_before_done (bpc w)) (bt_workers s) \<noteq> 0"
          using counts by (simp add: bt_counts_def)
        then obtain w where w: "w \<in> set (bt_workers s)" and "bt_before_done (bpc w)"
          using cnt_zero_iff [of "\<lambda>w. bt_before_done (bpc w)" "bt_workers s"] by auto
        then have "bpc w \<noteq> BT_Exited"
          by (auto simp: bt_before_done_def)
        with w have "\<exists>w\<in>set (bt_workers s). bpc w \<noteq> BT_Exited"
          by blast
        then show ?thesis using moves by blast
      qed
    qed
  next
    case BT_Read
    then have "bt_step W verb Main s \<noteq> None"
      by (simp add: bt_main_step_def)
    then show ?thesis by blast
  next
    case (BT_Returned e)
    then have "\<exists>w\<in>set (bt_workers s). bpc w \<noteq> BT_Exited"
      using assms(3) by (simp add: bt_done_def)
    then show ?thesis using moves by blast
  qed
qed

lemma bt_can_finish:
  "bt_inv verb s \<Longrightarrow> bt_locks W verb ps s \<Longrightarrow>
     \<exists>es s'. bt_exec W verb es s = Some s' \<and> bt_done s'"
proof (induction "bt_measure W s" arbitrary: s rule: less_induct)
  case less
  show ?case
  proof (cases "bt_done s")
    case True
    then have "bt_exec W verb [] s = Some s \<and> bt_done s"
      by simp
    then show ?thesis by blast
  next
    case False
    then obtain ev s1 where st: "bt_step W verb ev s = Some s1"
      using bt_progress [OF less.prems] by blast
    have "bt_inv verb s1"
      using less.prems(1) st by (rule bt_inv_step)
    moreover have "bt_locks W verb ps s1 \<and> bt_measure W s1 < bt_measure W s"
      using less.prems(2) st by (rule bt_locks_step)
    ultimately obtain es s' where "bt_exec W verb es s1 = Some s'" and "bt_done s'"
      using less.hyps [of s1] by blast
    then have "bt_exec W verb (ev # es) s = Some s' \<and> bt_done s'"
      using st by simp
    then show ?thesis by blast
  qed
qed

lemma bt_exec_append:
  "bt_exec W verb (xs @ ys) s =
     (case bt_exec W verb xs s of None \<Rightarrow> None | Some s1 \<Rightarrow> bt_exec W verb ys s1)"
  by (induction xs arbitrary: s) (auto split: option.splits)

lemma bt_begin_locks:
  assumes "mainBuildToolchain_begin W par pf verb t0 = BT_Dispatch s0"
  shows "bt_locks W verb (bt_pending (bt_main s0)) s0"
  using mainBuildToolchain_beginD [OF assms]
  by (auto simp: bt_locks_def bt_pending_def)

lemma bt_locks_exec:
  "bt_locks W verb ps s \<Longrightarrow> bt_exec W verb es s = Some s' \<Longrightarrow> bt_locks W verb ps s'"
proof (induction es arbitrary: s)
  case Nil
  then show ?case by simp
next
  case (Cons e es)
  then obtain s1 where st: "bt_step W verb e s = Some s1" and ex: "bt_exec W verb es s1 = Some s'"
    by (auto split: option.splits)
  have "bt_locks W verb ps s1"
    using bt_locks_step [OF Cons.prems(1) st] by simp
  then show ?case
    using Cons.IH ex by blast
qed


lemma cc_release_step:
  assumes "cc_counts s" and "i < length (cc_workers s)" and "pc (cc_workers s ! i) = CC_Release"
  shows "\<exists>s'. cc_step W F (Worker i) s = Some s' \<and> cc_semaphore s' + 1 = cc_semaphore s
     \<and> \<not> cc_holding (pc (cc_workers s' ! i))"
proof -
  have "cc_workers s ! i \<in> set (cc_workers s)"
    using assms(2) by simp
  then have "0 < cnt (\<lambda>w. cc_holding (pc w)) (cc_workers s)"
    using assms(3) by (intro cnt_pos [of "cc_workers s ! i"]) (simp_all add: cc_holding_def)
  then have "0 < cc_semaphore s"
    using assms(1) by (simp add: cc_counts_def)
  then show ?thesis
    using assms(2,3) by (simp add: cc_worker_step_def cc_local_def cc_holding_def)
qed

lemma bt_release_step:
  assumes "bt_counts s" and "i < length (bt_workers s)" and "bpc (bt_workers s ! i) = BT_Release"
  shows "\<exists>s'. bt_step W verb (Worker i) s = Some s' \<and> bt_semaphore s' + 1 = bt_semaphore s
     \<and> \<not> bt_holding (bpc (bt_workers s' ! i))"
proof -
  have "bt_workers s ! i \<in> set (bt_workers s)"
    using assms(2) by simp
  then have "0 < cnt (\<lambda>w. bt_holding (bpc w)) (bt_workers s)"
    using assms(3) by (intro cnt_pos [of "bt_workers s ! i"]) (simp_all add: bt_holding_def)
  then have "0 < bt_semaphore s"
    using assms(1) by (simp add: bt_counts_def)
  then show ?thesis
    using assms(2,3) by (simp add: bt_worker_step_def bt_local_def bt_holding_def)
qed

text \<open>No run of either function is longer than the number of steps its first state
  has left, a state in which no goroutine can move has all permits back, and such a
  state can be reached from every state of a run.\<close>

lemma cc_quiet:
  assumes "cc_main_step s = None" and "\<forall>w\<in>set (cc_workers s). cc_local W F w s = None"
  shows "cc_step W F e s = None"
proof (cases e)
  case Main
  then show ?thesis using assms(1) by simp
next
  case (Worker i)
  then show ?thesis
    using assms(2) by (simp add: cc_worker_step_def)
next
  case (Reader i)
  then show ?thesis by simp
qed

lemma bt_quiet:
  assumes "bt_main_step s = None"
    and "\<forall>w\<in>set (bt_workers s). bt_local W verb w s = None \<and> bt_reader_local w s = None"
  shows "bt_step W verb e s = None"
proof (cases e)
  case Main
  then show ?thesis using assms(1) by simp
next
  case (Worker i)
  then show ?thesis
    using assms(2) by (simp add: bt_worker_step_def)
next
  case (Reader i)
  then show ?thesis
    using assms(2) by (simp add: bt_reader_step_def)
qed

lemma cc_exec_measure:
  "cc_inv W F jobs s \<Longrightarrow> cc_locks s \<Longrightarrow> cc_exec W F es s = Some s' \<Longrightarrow>
     cc_measure s' + length es \<le> cc_measure s"
proof (induction es arbitrary: s)
  case Nil
  then show ?case by simp
next
  case (Cons e es)
  then obtain s1 where st: "cc_step W F e s = Some s1" and ex: "cc_exec W F es s1 = Some s'"
    by (auto split: option.splits)
  have "cc_inv W F jobs s1"
    using Cons.prems(1) st by (rule cc_inv_step)
  moreover have lk: "cc_locks s1 \<and> cc_measure s1 < cc_measure s"
    using Cons.prems(1,2) st by (rule cc_locks_step)
  ultimately have "cc_measure s' + length es \<le> cc_measure s1"
    using Cons.IH ex by blast
  then show ?case
    using lk by simp
qed

lemma bt_exec_measure:
  "bt_locks W verb ps s \<Longrightarrow> bt_exec W verb es s = Some s' \<Longrightarrow>
     bt_measure W s' + length es \<le> bt_measure W s"
proof (induction es arbitrary: s)
  case Nil
  then show ?case by simp
next
  case (Cons e es)
  then obtain s1 where st: "bt_step W verb e s = Some s1" and ex: "bt_exec W verb es s1 = Some s'"
    by (auto split: option.splits)
  have lk: "bt_locks W verb ps s1 \<and> bt_measure W s1 < bt_measure W s"
    using Cons.prems(1) st by (rule bt_locks_step)
  then have "bt_measure W s' + length es \<le> bt_measure W s1"
    using Cons.IH ex by blast
  then show ?case
    using lk by simp
qed

lemma cc_returned_released:
  assumes "cc_inv W F jobs s" and "cc_main s = CC_Returned bs e"
  shows "cc_released W F jobs s"
proof -
  have exited: "\<forall>w\<in>set (cc_workers s). pc w = CC_Exited"
    and jobs: "map cc_job (cc_workers s) = jobs"
    and wok: "\<forall>w\<in>set (cc_workers s). cc_wok W F w"
    and sem: "int (cc_semaphore s) = cnt (\<lambda>w. cc_holding (pc w)) (cc_workers s)"
    using assms by (simp_all add: cc_inv_def cc_counts_def cc_past_wait_def cc_pending_def)
  have "\<forall>w\<in>set (cc_workers s). \<not> cc_holding (pc w)"
    using exited by (simp add: cc_holding_def)
  then have "cnt (\<lambda>w. cc_holding (pc w)) (cc_workers s) = 0"
    by (simp add: cnt_zero_iff)
  then have zero: "cc_semaphore s = 0"
    using sem by simp
  have "\<forall>w\<in>set (cc_workers s). pc w = CC_Exited \<and> werr w = snd (cc_invoke W F (cc_job w))"
  proof
    fix w
    assume w: "w \<in> set (cc_workers s)"
    then have "pc w = CC_Exited" and "cc_wok W F w"
      using exited wok by simp_all
    then show "pc w = CC_Exited \<and> werr w = snd (cc_invoke W F (cc_job w))"
      by (simp add: cc_wok_def cc_compiled_def cc_invoke_def mk_opts_job)
  qed
  then show ?thesis
    using jobs zero by (simp add: cc_released_def)
qed

lemma bt_done_released:
  assumes "bt_inv verb s" and "bt_locks W verb ps s" and "bt_done s"
  shows "bt_released W ps s"
proof -
  have exited: "\<forall>w\<in>set (bt_workers s). bpc w = BT_Exited"
    using assms(3) by (simp add: bt_done_def)
  have "bt_pending (bt_main s) = []"
    using assms(3) by (auto simp: bt_done_def bt_pending_def)
  then have ps: "map bplatform (bt_workers s) = ps"
    using assms(2) by (simp add: bt_locks_def)
  have sem: "int (bt_semaphore s) = cnt (\<lambda>w. bt_holding (bpc w)) (bt_workers s)"
    using assms(1) by (simp add: bt_inv_def bt_counts_def)
  have "\<forall>w\<in>set (bt_workers s). \<not> bt_holding (bpc w)"
    using exited by (simp add: bt_holding_def)
  then have "cnt (\<lambda>w. bt_holding (bpc w)) (bt_workers s) = 0"
    by (simp add: cnt_zero_iff)
  then have zero: "bt_semaphore s = 0"
    using sem by simp
  have "\<forall>w\<in>set (bt_workers s). bpc w = BT_Exited \<and> (berr w \<noteq> None) = bt_failed W (bplatform w)"
  proof
    fix w
    assume w: "w \<in> set (bt_workers s)"
    then have "bpc w = BT_Exited" and "bt_live W verb w"
      using exited assms(2) by (simp_all add: bt_locks_def)
    then show "bpc w = BT_Exited \<and> (berr w \<noteq> None) = bt_failed W (bplatform w)"
      by (simp add: bt_live_def)
  qed
  then show ?thesis
    using ps zero by (simp add: bt_released_def)
qed

lemma cc_run_ends_released:
  assumes "CrossCompile_begin W = CC_Dispatch F s0" and "cc_exec W F sched s0 = Some s"
  shows "length sched \<le> cc_measure s0"
    and "(\<forall>e. cc_step W F e s = None) \<longrightarrow> cc_released W F (cc_pending (cc_main s0)) s"
    and "\<exists>post s'. cc_exec W F (sched @ post) s0 = Some s'
       \<and> cc_released W F (cc_pending (cc_main s0)) s'"
proof -
  let ?jobs = "cc_pending (cc_main s0)"
  have inv0: "cc_inv W F ?jobs s0"
    by (rule cc_begin_inv(1) [OF assms(1)])
  have lk0: "cc_locks s0"
    by (rule cc_begin_locks [OF assms(1)])
  have inv: "cc_inv W F ?jobs s"
    using inv0 assms(2) by (rule cc_inv_exec)
  have lk: "cc_locks s"
    using inv0 lk0 assms(2) by (rule cc_locks_exec)
  show "length sched \<le> cc_measure s0"
    using cc_exec_measure [OF inv0 lk0 assms(2)] by simp
  show "(\<forall>e. cc_step W F e s = None) \<longrightarrow> cc_released W F ?jobs s"
  proof
    assume stuck: "\<forall>e. cc_step W F e s = None"
    have "\<exists>bs e. cc_main s = CC_Returned bs e"
    proof (rule ccontr)
      assume "\<not> (\<exists>bs e. cc_main s = CC_Returned bs e)"
      then have "\<exists>e s'. cc_step W F e s = Some s'"
        by (rule cc_progress [OF inv lk])
      then show False
        using stuck by simp
    qed
    then show "cc_released W F ?jobs s"
      using inv cc_returned_released by blast
  qed
  obtain post s' bs e where ex: "cc_exec W F post s = Some s'"
    and m: "cc_main s' = CC_Returned bs e"
    using cc_can_finish [OF inv lk] by blast
  have "cc_inv W F ?jobs s'"
    using inv ex by (rule cc_inv_exec)
  then have "cc_released W F ?jobs s'"
    using m by (rule cc_returned_released)
  moreover have "cc_exec W F (sched @ post) s0 = Some s'"
    using assms(2) ex by (simp add: cc_exec_append)
  ultimately show "\<exists>post s'. cc_exec W F (sched @ post) s0 = Some s'
       \<and> cc_released W F ?jobs s'"
    by blast
qed

lemma bt_run_ends_released:
  assumes "mainBuildToolchain_begin W par pf verb t0 = BT_Dispatch s0"
    and "bt_exec W verb sched s0 = Some s"
  shows "length sched \<le> bt_measure W s0"
    and "(\<forall>e. bt_step W verb e s = None) \<longrightarrow> bt_released W (bt_pending (bt_main s0)) s"
    and "\<exists>post s'. bt_exec W verb (sched @ post) s0 = Some s'
       \<and> bt_released W (bt_pending (bt_main s0)) s'"
proof -
  let ?ps = "bt_pending (bt_main s0)"
  have lk0: "bt_locks W verb ?ps s0"
    by (rule bt_begin_locks [OF assms(1)])
  have inv: "bt_inv verb s"
    using bt_begin_inv(1) [OF assms(1)] assms(2) by (rule bt_inv_exec)
  have lk: "bt_locks W verb ?ps s"
    using lk0 assms(2) by (rule bt_locks_exec)
  show "length sched \<le> bt_measure W s0"
    using bt_exec_measure [OF lk0 assms(2)] by simp
  show "(\<forall>e. bt_step W verb e s = None) \<longrightarrow> bt_released W ?ps s"
  proof
    assume stuck: "\<forall>e. bt_step W verb e s = None"
    have "bt_done s"
    proof (rule ccontr)
      assume "\<not> bt_done s"
      then have "\<exists>e s'. bt_step W verb e s = Some s'"
        by (rule bt_progress [OF inv lk])
      then show False
        using stuck by simp
    qed
    then show "bt_released W ?ps s"
      by (rule bt_done_released [OF inv lk])
  qed
  obtain post s' where ex: "bt_exec W verb post s = Some s'" and d: "bt_done s'"
    using bt_can_finish [OF inv lk] by blast
  have "bt_inv verb s'"
    using inv ex by (rule bt_inv_exec)
  moreover have "bt_locks W verb ?ps s'"
    using lk ex by (rule bt_locks_exec)
  ultimately have "bt_released W ?ps s'"
    using d by (rule bt_done_released)
  moreover have "bt_exec W verb (sched @ post) s0 = Some s'"
    using assms(2) ex by (simp add: bt_exec_append)
  ultimately show "\<exists>post s'. bt_exec W verb (sched @ post) s0 = Some s'
       \<and> bt_released W ?ps s'"
    by blast
qed

section \<open>The claims\<close>

subsection \<open>Errors returned by the build dispatch\<close>

text \<open>
  Claim C1: whenever an invocation of a dispatch fails, \<open>CrossCompile\<close> returns a non-nil
  error that names the platform and the message of every failure.

  The code does not: line 317 returns the function's own variable \<open>err\<close>, which is nil
  once line 253 has been passed and which no goroutine assigns (lemma
  \<open>CrossCompile_error_nil\<close>: the error of every completed dispatch is nil). The run
  below builds package \<open>b\<close> for \<open>darwin/amd64\<close>, the invocation fails, the failure is
  written to the error stream, and both results are nil.
\<close>

theorem CrossCompile_single_failure_returns_nil:
  "CrossCompile single_world single_sched =
     Some (Returned (None, None)
       [Called ''Parse'', Called ''LookPath'', Called ''GoVersion'', Called ''GoMainDirs'',
        Called ''SupportedPlatforms'', Called ''Platforms'',
        Stdout ''Number of parallel builds: 2\<newline>\<newline>'',
        Stdout ''-->    darwin/amd64: b\<newline>'',
        Called ''envOverride'', Called ''envOverride'', Called ''GoCrossCompile'',
        Stderr ''\<newline>1 errors occurred:\<newline>'',
        Stderr ''--> darwin/amd64 error: exit status 2\<newline>''])"
  by code_simp

subsection \<open>Results of the build dispatch\<close>




subsection \<open>The barrier before the accumulators are read\<close>

text \<open>
  Claim C3: in both functions the lists of the accumulator are read only after every
  worker has made all of its appends.

  In \<open>CrossCompile\<close> this holds: \<open>wg.Done\<close> is deferred by the goroutine itself, and
  once the main goroutine is past \<open>wg.Wait()\<close> every worker has exited and none can
  move (lemma \<open>cc_barrier\<close>). In \<open>mainBuildToolchain\<close> it does not: \<open>wg.Done\<close> is
  deferred inside \<open>BuildToolchain\<close> (line 94), so it runs before the goroutine locks
  \<open>errorLock\<close> and appends to \<open>errs\<close> (lines 73 to 76). In the run below the script
  fails for the one platform; the main goroutine passes \<open>wg.Wait()\<close>, reads an empty
  \<open>errs\<close> and returns nil while the worker is still before its append; three steps
  of the worker later \<open>errs\<close> holds the error.
\<close>

theorem toolchain_errs_read_before_append:
  "map_option bt_view (bt_run race_world 2 (platformFlag demo_flags) False [] race_sched)
     = Some (BT_Returned None, [BT_ErrLock], [])
   \<and> map_option bt_view
       (bt_run race_world 2 (platformFlag demo_flags) False [] (race_sched @ replicate 3 (Worker 0)))
     = Some (BT_Returned None, [BT_Exited],
         [Errorf (''darwin/amd64: Error building '' @ [CHR 0x27] @ ''darwin/amd64'' @ [CHR 0x27]
            @ ''.\<newline>\<newline>Stdout: building\<newline>\<newline>\<newline>Stderr: boom\<newline>'')])"
  by code_simp

subsection \<open>Errors returned by the toolchain build\<close>

text \<open>
  Claim C4: \<open>mainBuildToolchain\<close> returns a non-nil combined error when a platform's
  build failed, and nil when all succeeded.

  The code returns nil in both cases: line 87 returns the function's own variable
  \<open>err\<close>, which is nil once line 46 has been passed (lemma
  \<open>mainBuildToolchain_error_nil\<close>). In the run below, with every append made before
  the main goroutine reads \<open>errs\<close>, two of three builds fail, both failures are written
  to the error stream, and the error returned is nil.
\<close>

theorem mainBuildToolchain_failures_return_nil:
  "mainBuildToolchain toolchain_world 2 (platformFlag demo_flags) False [] toolchain_sched =
     Some (Returned None
       ([Called ''LookPath'', Called ''GoVersionParts'', Called ''GoVersion'', Called ''GoRoot'',
         Called ''SupportedPlatforms'', Called ''Platforms''] @ serial_notice @
        [Stdout ''--> Toolchain: linux/amd64\<newline>'', Called ''make.bash'',
         Stdout ''--> Toolchain: linux/386\<newline>'', Called ''make.bash'',
         Stdout ''--> Toolchain: darwin/amd64\<newline>'', Called ''make.bash'',
         Stderr ''\<newline>2 errors occurred:\<newline>'',
         Stderr (''linux/386: Error building '' @ [CHR 0x27] @ ''linux/386'' @ [CHR 0x27]
            @ '': permission denied\<newline>''),
         Stderr (''darwin/amd64: Error building '' @ [CHR 0x27] @ ''darwin/amd64'' @ [CHR 0x27]
            @ ''.\<newline>\<newline>Stdout: building\<newline>\<newline>\<newline>Stderr: boom\<newline>\<newline>'')]))"
  by code_simp

subsection \<open>The permit pool\<close>

text \<open>
  Claim C5: with parallelism factor \<open>P\<close>, never more than \<open>P\<close> external invocations are
  in flight; a worker takes a permit of the pool of capacity \<open>P\<close> before the invocation
  and gives it back afterwards, also when the invocation failed.

  In every state a dispatch of \<open>CrossCompile\<close> can reach, the capacity of the channel
  is the resolved parallelism, the number of values in it is the number of workers
  between line 277 and line 306, and it is at most the capacity; the workers inside
  \<open>GoCrossCompile\<close> are among them. A worker that has come to line 306 can take its
  value out of the channel at once, whatever \<open>GoCrossCompile\<close> returned to it, and
  then it holds no permit. No run is longer than a bound fixed when the loop starts;
  a state in which no goroutine can move has a worker for every invocation, each of
  them has ended, those whose invocation failed as well, and the channel is empty; and
  from every state of a run the dispatch can go on to such a state. So however the
  goroutines are scheduled, every permit that was taken is given back. The same holds
  for \<open>mainBuildToolchain\<close>, the deferred receive of line 96 and the running scripts,
  with capacity 1, with and without \<open>-verbose\<close>.
\<close>

theorem permits_bound_invocations:
  "(CrossCompile_begin W = CC_Dispatch F s0 \<longrightarrow> cc_exec W F sched s0 = Some s \<longrightarrow>
      int (cc_capacity s) = resolveParallel (parallel F) (NumCPU W) (GOOS W)
      \<and> length (filter (\<lambda>w. pc w = CC_InFlight) (cc_workers s)) \<le> cc_capacity s
      \<and> cc_semaphore s = length (filter (\<lambda>w. cc_holding (pc w)) (cc_workers s))
      \<and> cc_semaphore s \<le> cc_capacity s
      \<and> (\<forall>i<length (cc_workers s). pc (cc_workers s ! i) = CC_Release \<longrightarrow>
            (\<exists>s'. cc_step W F (Worker i) s = Some s' \<and> cc_semaphore s' + 1 = cc_semaphore s
               \<and> \<not> cc_holding (pc (cc_workers s' ! i))))
      \<and> length sched \<le> cc_measure s0
      \<and> ((\<forall>e. cc_step W F e s = None) \<longrightarrow> cc_released W F (cc_pending (cc_main s0)) s)
      \<and> (\<exists>post s'. cc_exec W F (sched @ post) s0 = Some s'
            \<and> cc_released W F (cc_pending (cc_main s0)) s'))
   \<and> (mainBuildToolchain_begin W' par pf verb t0 = BT_Dispatch b0 \<longrightarrow>
      bt_exec W' verb sched' b0 = Some b \<longrightarrow>
      bt_capacity b = 1
      \<and> length (filter (\<lambda>w. bpc w = BT_Wait) (bt_workers b)) \<le> bt_capacity b
      \<and> bt_semaphore b = length (filter (\<lambda>w. bt_holding (bpc w)) (bt_workers b))
      \<and> bt_semaphore b \<le> bt_capacity b
      \<and> (\<forall>i<length (bt_workers b). bpc (bt_workers b ! i) = BT_Release \<longrightarrow>
            (\<exists>b'. bt_step W' verb (Worker i) b = Some b' \<and> bt_semaphore b' + 1 = bt_semaphore b
               \<and> \<not> bt_holding (bpc (bt_workers b' ! i))))
      \<and> length sched' \<le> bt_measure W' b0
      \<and> ((\<forall>e. bt_step W' verb e b = None) \<longrightarrow> bt_released W' (bt_pending (bt_main b0)) b)
      \<and> (\<exists>post b'. bt_exec W' verb (sched' @ post) b0 = Some b'
            \<and> bt_released W' (bt_pending (bt_main b0)) b'))"
proof (intro conjI impI)
  assume b: "CrossCompile_begin W = CC_Dispatch F s0" and e: "cc_exec W F sched s0 = Some s"
  have "cc_inv W F (cc_pending (cc_main s0)) s"
    using cc_begin_inv(1) [OF b] e by (rule cc_inv_exec)
  then have c: "cc_counts s"
    by (simp add: cc_inv_def)
  show "int (cc_capacity s) = resolveParallel (parallel F) (NumCPU W) (GOOS W)"
    using cc_exec_capacity [OF e] cc_begin_inv(2) [OF b]
      resolveParallel_pos [of "parallel F" "NumCPU W" "GOOS W"]
    by simp
  show "length (filter (\<lambda>w. pc w = CC_InFlight) (cc_workers s)) \<le> cc_capacity s"
    using cc_counts_bound(1,3) [OF c] by simp
  show "cc_semaphore s = length (filter (\<lambda>w. cc_holding (pc w)) (cc_workers s))"
    using c by (rule cc_counts_bound(2))
  show "cc_semaphore s \<le> cc_capacity s"
    using c by (rule cc_counts_bound(3))
  show "\<forall>i<length (cc_workers s). pc (cc_workers s ! i) = CC_Release \<longrightarrow>
      (\<exists>s'. cc_step W F (Worker i) s = Some s' \<and> cc_semaphore s' + 1 = cc_semaphore s
         \<and> \<not> cc_holding (pc (cc_workers s' ! i)))"
    using cc_release_step [OF c] by blast
  show "length sched \<le> cc_measure s0"
    using b e by (rule cc_run_ends_released(1))
  show "\<exists>post s'. cc_exec W F (sched @ post) s0 = Some s'
      \<and> cc_released W F (cc_pending (cc_main s0)) s'"
    using b e by (rule cc_run_ends_released(3))
  assume "\<forall>e. cc_step W F e s = None"
  then show "cc_released W F (cc_pending (cc_main s0)) s"
    using cc_run_ends_released(2) [OF b e] by simp
next
  assume b: "mainBuildToolchain_begin W' par pf verb t0 = BT_Dispatch b0"
    and e: "bt_exec W' verb sched' b0 = Some b"
  have "bt_inv verb b"
    using bt_begin_inv(1) [OF b] e by (rule bt_inv_exec)
  then have c: "bt_counts b"
    by (simp add: bt_inv_def)
  show "bt_capacity b = 1"
    using bt_exec_frame [OF e] bt_begin_inv(2) [OF b] by simp
  show "length (filter (\<lambda>w. bpc w = BT_Wait) (bt_workers b)) \<le> bt_capacity b"
    using bt_counts_bound(1,3) [OF c] by simp
  show "bt_semaphore b = length (filter (\<lambda>w. bt_holding (bpc w)) (bt_workers b))"
    using c by (rule bt_counts_bound(2))
  show "bt_semaphore b \<le> bt_capacity b"
    using c by (rule bt_counts_bound(3))
  show "\<forall>i<length (bt_workers b). bpc (bt_workers b ! i) = BT_Release \<longrightarrow>
      (\<exists>b'. bt_step W' verb (Worker i) b = Some b' \<and> bt_semaphore b' + 1 = bt_semaphore b
         \<and> \<not> bt_holding (bpc (bt_workers b' ! i)))"
    using bt_release_step [OF c] by blast
  show "length sched' \<le> bt_measure W' b0"
    using b e by (rule bt_run_ends_released(1))
  show "\<exists>post b'. bt_exec W' verb (sched' @ post) b0 = Some b'
      \<and> bt_released W' (bt_pending (bt_main b0)) b'"
    using b e by (rule bt_run_ends_released(3))
  assume "\<forall>e. bt_step W' verb e b = None"
  then show "bt_released W' (bt_pending (bt_main b0)) b"
    using bt_run_ends_released(2) [OF b e] by simp
qed

text \<open>Claim C5 in the two example runs. After ten events of the dispatch two
  invocations are in flight under two permits. After 49 events the worker of package
  \<open>b\<close> on \<open>darwin/amd64\<close>, whose invocation failed, is at line 306: it can give its
  permit back. After all 59 events no goroutine can move, all six workers have ended
  and the channel is empty. After six events of the toolchain build one script runs
  under the one permit; after 13 the worker for \<open>linux/386\<close>, whose script could not be
  started, is at the deferred receive and can give the permit back; after all 31
  events no goroutine can move, all three workers have ended, two of them with an
  error, and the channel is empty.\<close>

theorem permits_bound_invocations_witness:
  "CrossCompile_begin demo_world = CC_Dispatch demo_flags demo_start
   \<and> cc_exec demo_world demo_flags (take 10 demo_sched) demo_start = Some demo_mid
   \<and> length (filter (\<lambda>w. pc w = CC_InFlight) (cc_workers demo_mid)) = 2
   \<and> int (cc_capacity demo_mid)
       = resolveParallel (parallel demo_flags) (NumCPU demo_world) (GOOS demo_world)
   \<and> length (filter (\<lambda>w. pc w = CC_InFlight) (cc_workers demo_mid)) \<le> cc_capacity demo_mid
   \<and> cc_semaphore demo_mid = length (filter (\<lambda>w. cc_holding (pc w)) (cc_workers demo_mid))
   \<and> cc_semaphore demo_mid \<le> cc_capacity demo_mid
   \<and> cc_exec demo_world demo_flags (take 49 demo_sched) demo_start = Some demo_release
   \<and> 5 < length (cc_workers demo_release)
   \<and> pc (cc_workers demo_release ! 5) = CC_Release
   \<and> werr (cc_workers demo_release ! 5) = Some (Errorf ''exit status 2'')
   \<and> (\<exists>s'. cc_step demo_world demo_flags (Worker 5) demo_release = Some s'
         \<and> cc_semaphore s' + 1 = cc_semaphore demo_release
         \<and> \<not> cc_holding (pc (cc_workers s' ! 5)))
   \<and> (\<exists>post s'. cc_exec demo_world demo_flags (take 49 demo_sched @ post) demo_start = Some s'
         \<and> cc_released demo_world demo_flags (cc_pending (cc_main demo_start)) s')
   \<and> cc_exec demo_world demo_flags demo_sched demo_start = Some demo_end
   \<and> length demo_sched = 59 \<and> cc_measure demo_start = 74
   \<and> length demo_sched \<le> cc_measure demo_start
   \<and> (\<forall>e. cc_step demo_world demo_flags e demo_end = None)
   \<and> cc_released demo_world demo_flags (cc_pending (cc_main demo_start)) demo_end
   \<and> map (\<lambda>w. (pc w, werr w)) (cc_workers demo_end) =
       [(CC_Exited, None), (CC_Exited, None), (CC_Exited, None), (CC_Exited, None),
        (CC_Exited, None), (CC_Exited, Some (Errorf ''exit status 2''))]
   \<and> cc_semaphore demo_end = 0
   \<and> mainBuildToolchain_begin toolchain_world 2 (platformFlag demo_flags) False []
       = BT_Dispatch toolchain_start
   \<and> bt_exec toolchain_world False (take 6 toolchain_sched) toolchain_start = Some toolchain_mid
   \<and> length (filter (\<lambda>w. bpc w = BT_Wait) (bt_workers toolchain_mid)) = 1
   \<and> bt_capacity toolchain_mid = 1
   \<and> length (filter (\<lambda>w. bpc w = BT_Wait) (bt_workers toolchain_mid)) \<le> bt_capacity toolchain_mid
   \<and> bt_semaphore toolchain_mid
       = length (filter (\<lambda>w. bt_holding (bpc w)) (bt_workers toolchain_mid))
   \<and> bt_semaphore toolchain_mid \<le> bt_capacity toolchain_mid
   \<and> bt_exec toolchain_world False (take 13 toolchain_sched) toolchain_start
       = Some toolchain_release
   \<and> 1 < length (bt_workers toolchain_release)
   \<and> bpc (bt_workers toolchain_release ! 1) = BT_Release
   \<and> berr (bt_workers toolchain_release ! 1) \<noteq> None
   \<and> (\<exists>b'. bt_step toolchain_world False (Worker 1) toolchain_release = Some b'
         \<and> bt_semaphore b' + 1 = bt_semaphore toolchain_release
         \<and> \<not> bt_holding (bpc (bt_workers b' ! 1)))
   \<and> (\<exists>post b'. bt_exec toolchain_world False (take 13 toolchain_sched @ post) toolchain_start
           = Some b'
         \<and> bt_released toolchain_world (bt_pending (bt_main toolchain_start)) b')
   \<and> bt_exec toolchain_world False toolchain_sched toolchain_start = Some toolchain_end
   \<and> length toolchain_sched = 31 \<and> bt_measure toolchain_world toolchain_start = 66
   \<and> length toolchain_sched \<le> bt_measure toolchain_world toolchain_start
   \<and> (\<forall>e. bt_step toolchain_world False e toolchain_end = None)
   \<and> bt_released toolchain_world (bt_pending (bt_main toolchain_start)) toolchain_end
   \<and> map (\<lambda>w. (bpc w, berr w \<noteq> None)) (bt_workers toolchain_end) =
       [(BT_Exited, False), (BT_Exited, True), (BT_Exited, True)]
   \<and> bt_semaphore toolchain_end = 0"
proof -
  have b1: "CrossCompile_begin demo_world = CC_Dispatch demo_flags demo_start"
    by (simp add: CrossCompile_begin_def demo_world_def demo_flags_def demo_start_def
          resolveParallel_def Let_def show_int_def show_nat.simps)
  have "cc_exec demo_world demo_flags (take 10 demo_sched) demo_start \<noteq> None"
    by code_simp
  then have e1: "cc_exec demo_world demo_flags (take 10 demo_sched) demo_start = Some demo_mid"
    by (simp add: demo_mid_def)
  have n1: "length (filter (\<lambda>w. pc w = CC_InFlight) (cc_workers demo_mid)) = 2"
    by code_simp
  have "cc_exec demo_world demo_flags (take 49 demo_sched) demo_start \<noteq> None"
    by code_simp
  then have e2: "cc_exec demo_world demo_flags (take 49 demo_sched) demo_start = Some demo_release"
    by (simp add: demo_release_def)
  have r2: "5 < length (cc_workers demo_release)"
    "pc (cc_workers demo_release ! 5) = CC_Release"
    "werr (cc_workers demo_release ! 5) = Some (Errorf ''exit status 2'')"
    by code_simp+
  have "cc_exec demo_world demo_flags demo_sched demo_start \<noteq> None"
    by code_simp
  then have e3: "cc_exec demo_world demo_flags demo_sched demo_start = Some demo_end"
    by (simp add: demo_end_def)
  have n3: "length demo_sched = 59" "cc_measure demo_start = 74"
    by code_simp+
  have "cc_main_step demo_end = None"
    and "\<forall>w\<in>set (cc_workers demo_end). cc_local demo_world demo_flags w demo_end = None"
    by code_simp+
  then have q3: "\<forall>e. cc_step demo_world demo_flags e demo_end = None"
    using cc_quiet by blast
  have r3: "map (\<lambda>w. (pc w, werr w)) (cc_workers demo_end) =
       [(CC_Exited, None), (CC_Exited, None), (CC_Exited, None), (CC_Exited, None),
        (CC_Exited, None), (CC_Exited, Some (Errorf ''exit status 2''))]"
    "cc_semaphore demo_end = 0"
    by code_simp+
  have b4: "mainBuildToolchain_begin toolchain_world 2 (platformFlag demo_flags) False []
      = BT_Dispatch toolchain_start"
    by code_simp
  have "bt_exec toolchain_world False (take 6 toolchain_sched) toolchain_start \<noteq> None"
    by code_simp
  then have e4: "bt_exec toolchain_world False (take 6 toolchain_sched) toolchain_start
      = Some toolchain_mid"
    by (simp add: toolchain_mid_def)
  have n4: "length (filter (\<lambda>w. bpc w = BT_Wait) (bt_workers toolchain_mid)) = 1"
    by code_simp
  have "bt_exec toolchain_world False (take 13 toolchain_sched) toolchain_start \<noteq> None"
    by code_simp
  then have e5: "bt_exec toolchain_world False (take 13 toolchain_sched) toolchain_start
      = Some toolchain_release"
    by (simp add: toolchain_release_def)
  have r5: "1 < length (bt_workers toolchain_release)"
    "bpc (bt_workers toolchain_release ! 1) = BT_Release"
    "berr (bt_workers toolchain_release ! 1) \<noteq> None"
    by code_simp+
  have "bt_exec toolchain_world False toolchain_sched toolchain_start \<noteq> None"
    by code_simp
  then have e6: "bt_exec toolchain_world False toolchain_sched toolchain_start = Some toolchain_end"
    by (simp add: toolchain_end_def)
  have n6: "length toolchain_sched = 31" "bt_measure toolchain_world toolchain_start = 66"
    by code_simp+
  have "bt_main_step toolchain_end = None"
    and "\<forall>w\<in>set (bt_workers toolchain_end).
       bt_local toolchain_world False w toolchain_end = None
       \<and> bt_reader_local w toolchain_end = None"
    by code_simp+
  then have q6: "\<forall>e. bt_step toolchain_world False e toolchain_end = None"
    using bt_quiet by blast
  have r6: "map (\<lambda>w. (bpc w, berr w \<noteq> None)) (bt_workers toolchain_end) =
       [(BT_Exited, False), (BT_Exited, True), (BT_Exited, True)]"
    "bt_semaphore toolchain_end = 0"
    by code_simp+
  note mid = permits_bound_invocations [where W = demo_world and F = demo_flags
      and ?s0.0 = demo_start and sched = "take 10 demo_sched" and s = demo_mid
      and W' = toolchain_world and par = 2 and pf = "platformFlag demo_flags" and verb = False
      and ?t0.0 = "[]" and ?b0.0 = toolchain_start and sched' = "take 6 toolchain_sched"
      and b = toolchain_mid]
  note rel = permits_bound_invocations [where W = demo_world and F = demo_flags
      and ?s0.0 = demo_start and sched = "take 49 demo_sched" and s = demo_release
      and W' = toolchain_world and par = 2 and pf = "platformFlag demo_flags" and verb = False
      and ?t0.0 = "[]" and ?b0.0 = toolchain_start and sched' = "take 13 toolchain_sched"
      and b = toolchain_release]
  note fin = permits_bound_invocations [where W = demo_world and F = demo_flags
      and ?s0.0 = demo_start and sched = demo_sched and s = demo_end
      and W' = toolchain_world and par = 2 and pf = "platformFlag demo_flags" and verb = False
      and ?t0.0 = "[]" and ?b0.0 = toolchain_start and sched' = toolchain_sched
      and b = toolchain_end]
  have m5: "length demo_sched \<le> cc_measure demo_start
     \<and> cc_released demo_world demo_flags (cc_pending (cc_main demo_start)) demo_end"
    using fin b1 e3 q3 by blast
  have m6: "length toolchain_sched \<le> bt_measure toolchain_world toolchain_start
     \<and> bt_released toolchain_world (bt_pending (bt_main toolchain_start)) toolchain_end"
    using fin b4 e6 q6 by blast
  have m1: "int (cc_capacity demo_mid)
       = resolveParallel (parallel demo_flags) (NumCPU demo_world) (GOOS demo_world)
     \<and> length (filter (\<lambda>w. pc w = CC_InFlight) (cc_workers demo_mid)) \<le> cc_capacity demo_mid
     \<and> cc_semaphore demo_mid = length (filter (\<lambda>w. cc_holding (pc w)) (cc_workers demo_mid))
     \<and> cc_semaphore demo_mid \<le> cc_capacity demo_mid"
    using mid b1 e1 by blast
  have m2: "bt_capacity toolchain_mid = 1
     \<and> length (filter (\<lambda>w. bpc w = BT_Wait) (bt_workers toolchain_mid)) \<le> bt_capacity toolchain_mid
     \<and> bt_semaphore toolchain_mid
         = length (filter (\<lambda>w. bt_holding (bpc w)) (bt_workers toolchain_mid))
     \<and> bt_semaphore toolchain_mid \<le> bt_capacity toolchain_mid"
    using mid b4 e4 by blast
  have m3: "(\<exists>s'. cc_step demo_world demo_flags (Worker 5) demo_release = Some s'
         \<and> cc_semaphore s' + 1 = cc_semaphore demo_release
         \<and> \<not> cc_holding (pc (cc_workers s' ! 5)))
     \<and> (\<exists>post s'. cc_exec demo_world demo_flags (take 49 demo_sched @ post) demo_start = Some s'
         \<and> cc_released demo_world demo_flags (cc_pending (cc_main demo_start)) s')"
    using rel b1 e2 r2(1,2) by blast
  have m4: "(\<exists>b'. bt_step toolchain_world False (Worker 1) toolchain_release = Some b'
         \<and> bt_semaphore b' + 1 = bt_semaphore toolchain_release
         \<and> \<not> bt_holding (bpc (bt_workers b' ! 1)))
     \<and> (\<exists>post b'. bt_exec toolchain_world False (take 13 toolchain_sched @ post) toolchain_start
           = Some b'
         \<and> bt_released toolchain_world (bt_pending (bt_main toolchain_start)) b')"
    using rel b4 e5 r5(1,2) by blast
  show ?thesis
    using b1 e1 n1 m1 e2 r2 m3 e3 n3 q3 m5 r3 b4 e4 n4 m2 e5 r5 m4 e6 n6 q6 m6 r6 by simp
qed

subsection \<open>The resolved parallelism\<close>

text \<open>
  Claim C6, as stated: on solaris the effective parallelism is capped at 3 whatever
  value was requested. The block of lines 222 to 224 is inside the test
  \<open>parallel <= 0\<close>, and its comment says "unless overridden with the -parallel flag":
  a request of 10 on a solaris machine with 48 CPUs stays 10.
\<close>

theorem resolveParallel_solaris_not_capped:
  "resolveParallel 10 48 ''solaris'' = 10 \<and> \<not> resolveParallel 10 48 ''solaris'' \<le> 3"
  by (simp add: resolveParallel_def)

text \<open>
  Claim C6, amended: a value of \<open>-parallel\<close> that is \<open><= 0\<close> resolves to the CPU count
  minus one, and to 1 when that is smaller, on every operating system but solaris (so 0
  on four CPUs resolves to 3), and to 3 on solaris; a positive value is used as it is
  on every operating system, solaris included. The channel of a dispatch has the
  resolved value as its capacity.
\<close>

theorem resolveParallel_cases:
  "(par \<le> 0 \<and> goos \<noteq> ''solaris'' \<longrightarrow> resolveParallel par cpus goos = max 1 (cpus - 1))
   \<and> (par \<le> 0 \<and> goos = ''solaris'' \<longrightarrow> resolveParallel par cpus goos = 3)
   \<and> (0 < par \<longrightarrow> resolveParallel par cpus goos = par)
   \<and> resolveParallel 0 4 goos = 3
   \<and> (CrossCompile_begin W = CC_Dispatch F s0 \<longrightarrow>
        int (cc_capacity s0) = resolveParallel (parallel F) (NumCPU W) (GOOS W))"
proof -
  have "CrossCompile_begin W = CC_Dispatch F s0 \<longrightarrow>
      int (cc_capacity s0) = resolveParallel (parallel F) (NumCPU W) (GOOS W)"
  proof
    assume b: "CrossCompile_begin W = CC_Dispatch F s0"
    show "int (cc_capacity s0) = resolveParallel (parallel F) (NumCPU W) (GOOS W)"
      using cc_begin_inv(2) [OF b] resolveParallel_pos [of "parallel F" "NumCPU W" "GOOS W"]
      by simp
  qed
  moreover have "resolveParallel 0 4 goos = 3"
    by (simp add: resolveParallel_def Let_def)
  moreover have "par \<le> 0 \<and> goos \<noteq> ''solaris'' \<longrightarrow>
      resolveParallel par cpus goos = max 1 (cpus - 1)"
    by (simp add: resolveParallel_def Let_def)
  moreover have "par \<le> 0 \<and> goos = ''solaris'' \<longrightarrow> resolveParallel par cpus goos = 3"
    by (simp add: resolveParallel_def Let_def)
  moreover have "0 < par \<longrightarrow> resolveParallel par cpus goos = par"
    by (simp add: resolveParallel_def Let_def)
  ultimately show ?thesis
    by blast
qed

text \<open>The amended claim C6 at a request of 0 on four CPUs, of \<open>-1\<close> on a solaris machine
  with 48 CPUs, of 10 on the same machine, and in the example dispatch.\<close>

theorem resolveParallel_cases_witness:
  "(0::int) \<le> 0 \<and> ''linux'' \<noteq> ''solaris'' \<and> resolveParallel 0 4 ''linux'' = max 1 (4 - 1)
   \<and> resolveParallel 0 4 ''linux'' = 3
   \<and> (-1::int) \<le> 0 \<and> resolveParallel (-1) 48 ''solaris'' = 3
   \<and> (0::int) < 10 \<and> resolveParallel 10 48 ''solaris'' = 10
   \<and> CrossCompile_begin demo_world = CC_Dispatch demo_flags demo_start
   \<and> int (cc_capacity demo_start)
       = resolveParallel (parallel demo_flags) (NumCPU demo_world) (GOOS demo_world)"
proof -
  have b: "CrossCompile_begin demo_world = CC_Dispatch demo_flags demo_start"
    by (simp add: CrossCompile_begin_def demo_world_def demo_flags_def demo_start_def
          resolveParallel_def Let_def show_int_def show_nat.simps)
  show ?thesis
    using b resolveParallel_cases [of 0 "''linux''" 4 demo_world demo_flags demo_start]
      resolveParallel_cases [of "-1" "''solaris''" 48 demo_world demo_flags demo_start]
      resolveParallel_cases [of 10 "''solaris''" 48 demo_world demo_flags demo_start]
    by simp
qed

subsection \<open>No platform to build for\<close>

text \<open>
  The list of platforms is resolved in two places, by the same expression: at line 258
  of \<open>CrossCompile\<close> and, with \<open>-build-toolchain\<close>, at line 55 of \<open>mainBuildToolchain\<close>.
  Line 258 is reached when the flags parse, the toolchain build is not asked for, the
  Go command is found, the version is read, the list of platforms is not asked for and
  the packages are found. There the test of line 259 follows: under every schedule the
  call returns \<open>ErrNoValidPlatforms\<close> with a nil list; its effects are the six calls
  before line 259, without any call of \<open>GoCrossCompile\<close>, and the loop is never
  reached.
\<close>

lemma CrossCompile_build_path_no_valid_platforms:
  assumes "Parse W = Inr F" and "\<not> buildToolchain F" and "LookPath W (flagGoCmd F) = None"
    and "GoVersion W = Inr version" and "\<not> flagListOSArch F"
    and "GoMainDirs W (if length (Args F) = 0 then [''.''] else Args F) (flagGoCmd F) = Inr mainDirs"
    and "platformFlag F (SupportedPlatforms W version) = []"
  shows "CrossCompile W sched =
     Some (Returned (None, Some ErrNoValidPlatforms)
       [Called ''Parse'', Called ''LookPath'', Called ''GoVersion'', Called ''GoMainDirs'',
        Called ''SupportedPlatforms'', Called ''Platforms''])
     \<and> (\<forall>F' s0. CrossCompile_begin W \<noteq> CC_Dispatch F' s0)"
  using assms unfolding CrossCompile_def CrossCompile_begin_def Let_def
  by simp

text \<open>The build path in the example where the platform flags leave no platform.\<close>

lemma CrossCompile_build_path_no_valid_platforms_example:
  "Parse no_platform_world = Inr no_platform_flags
   \<and> \<not> buildToolchain no_platform_flags
   \<and> LookPath no_platform_world (flagGoCmd no_platform_flags) = None
   \<and> GoVersion no_platform_world = Inr ''go1.4''
   \<and> \<not> flagListOSArch no_platform_flags
   \<and> GoMainDirs no_platform_world
        (if length (Args no_platform_flags) = 0 then [''.''] else Args no_platform_flags)
        (flagGoCmd no_platform_flags) = Inr [''a'', ''b'']
   \<and> platformFlag no_platform_flags (SupportedPlatforms no_platform_world ''go1.4'') = []
   \<and> CrossCompile no_platform_world demo_sched =
       Some (Returned (None, Some ErrNoValidPlatforms)
         [Called ''Parse'', Called ''LookPath'', Called ''GoVersion'', Called ''GoMainDirs'',
          Called ''SupportedPlatforms'', Called ''Platforms''])
   \<and> (\<forall>F' s0. CrossCompile_begin no_platform_world \<noteq> CC_Dispatch F' s0)"
proof -
  have h: "Parse no_platform_world = Inr no_platform_flags"
    "\<not> buildToolchain no_platform_flags"
    "LookPath no_platform_world (flagGoCmd no_platform_flags) = None"
    "GoVersion no_platform_world = Inr ''go1.4''"
    "\<not> flagListOSArch no_platform_flags"
    "GoMainDirs no_platform_world
        (if length (Args no_platform_flags) = 0 then [''.''] else Args no_platform_flags)
        (flagGoCmd no_platform_flags) = Inr [''a'', ''b'']"
    "platformFlag no_platform_flags (SupportedPlatforms no_platform_world ''go1.4'') = []"
    by (simp_all add: no_platform_world_def no_platform_flags_def demo_world_def demo_flags_def)
  show ?thesis
    using h CrossCompile_build_path_no_valid_platforms [OF h, of demo_sched]
    by (intro conjI) simp_all
qed

text \<open>
  Claim C7: when the resolved list of platforms is empty, \<open>CrossCompile\<close> returns the one
  error "no valid platforms" and starts no worker and no invocation.

  With \<open>-build-toolchain\<close> the code does not: \<open>mainBuildToolchain\<close> resolves the list at
  line 55 and has no test like that of line 259. In the run below Go 1.4 is installed
  and the platform flags leave no platform; the loop of line 69 runs zero times,
  \<open>wg.Wait()\<close> returns at once, and \<open>CrossCompile\<close> returns a nil error, having started
  no worker and written nothing to the error stream.
\<close>

theorem CrossCompile_toolchain_no_platforms_returns_nil:
  "Parse no_platform_toolchain_world = Inr no_platform_toolchain_flags
   \<and> buildToolchain no_platform_toolchain_flags
   \<and> platformFlag no_platform_toolchain_flags
        (SupportedPlatforms no_platform_toolchain_world ''go1.4'') = []
   \<and> CrossCompile no_platform_toolchain_world [Main, Main] =
       Some (Returned (None, None)
         ([Called ''Parse'', Called ''LookPath'', Called ''GoVersionParts'', Called ''GoVersion'',
           Called ''GoRoot'', Called ''SupportedPlatforms'', Called ''Platforms'']
          @ serial_notice))"
proof -
  have "CrossCompile no_platform_toolchain_world [Main, Main] =
       Some (Returned (None, None)
         ([Called ''Parse'', Called ''LookPath'', Called ''GoVersionParts'', Called ''GoVersion'',
           Called ''GoRoot'', Called ''SupportedPlatforms'', Called ''Platforms'']
          @ serial_notice))"
    by code_simp
  then show ?thesis
    by (simp add: no_platform_toolchain_world_def no_platform_toolchain_flags_def
          no_platform_flags_def demo_world_def demo_flags_def)
qed

subsection \<open>The serial toolchain build\<close>

text \<open>
  Claim C8: whatever parallelism is requested, the toolchain build runs with an
  effective concurrency of exactly 1, and when more than 1 was requested it first
  prints a message saying why. In every state the goroutines of \<open>mainBuildToolchain\<close>
  can reach, the channel has capacity 1 and at most one worker is between line 95 and
  the deferred receive of line 96, where the script runs; when \<open>parallel > 1\<close> the
  three lines of the message are the last output before the loop starts, so that all
  output of the workers comes after them.
\<close>

theorem toolchain_build_is_serial:
  assumes "mainBuildToolchain_begin W par pf verb t0 = BT_Dispatch s0"
    and "bt_exec W verb sched s0 = Some s"
  shows "bt_capacity s = 1
     \<and> length (filter (\<lambda>w. bt_holding (bpc w)) (bt_workers s)) \<le> 1
     \<and> (1 < par \<longrightarrow> (\<exists>pre post. bt_trace s0 = pre @ serial_notice
                                  \<and> bt_trace s = pre @ serial_notice @ post))"
proof -
  have "bt_inv verb s"
    using bt_begin_inv(1) [OF assms(1)] assms(2) by (rule bt_inv_exec)
  then have c: "bt_counts s"
    by (simp add: bt_inv_def)
  have cap: "bt_capacity s = 1"
    using bt_exec_frame [OF assms(2)] bt_begin_inv(2) [OF assms(1)] by simp
  have one: "length (filter (\<lambda>w. bt_holding (bpc w)) (bt_workers s)) \<le> 1"
    using bt_counts_bound(2,3) [OF c] cap by simp
  have "1 < par \<longrightarrow>
      (\<exists>pre post. bt_trace s0 = pre @ serial_notice \<and> bt_trace s = pre @ serial_notice @ post)"
  proof
    assume "1 < par"
    with mainBuildToolchain_beginD [OF assms(1)]
    obtain pre where "bt_trace s0 = pre @ serial_notice"
      by auto
    moreover obtain post where "bt_trace s = bt_trace s0 @ post"
      using bt_exec_frame [OF assms(2)] by blast
    ultimately show "\<exists>pre post. bt_trace s0 = pre @ serial_notice
        \<and> bt_trace s = pre @ serial_notice @ post"
      by auto
  qed
  then show ?thesis
    using cap one by blast
qed

text \<open>Claim C8 in the example, where 2 was requested, while the first script runs.\<close>

theorem toolchain_build_is_serial_witness:
  "mainBuildToolchain_begin toolchain_world 2 (platformFlag demo_flags) False []
       = BT_Dispatch toolchain_start
   \<and> bt_exec toolchain_world False (take 6 toolchain_sched) toolchain_start = Some toolchain_mid
   \<and> map bpc (bt_workers toolchain_mid) = [BT_Wait, BT_Acquire, BT_Acquire]
   \<and> bt_capacity toolchain_mid = 1
   \<and> length (filter (\<lambda>w. bt_holding (bpc w)) (bt_workers toolchain_mid)) \<le> 1
   \<and> (1::int) < 2
   \<and> (\<exists>pre post. bt_trace toolchain_start = pre @ serial_notice
          \<and> bt_trace toolchain_mid = pre @ serial_notice @ post)"
proof -
  have b: "mainBuildToolchain_begin toolchain_world 2 (platformFlag demo_flags) False []
      = BT_Dispatch toolchain_start"
    by code_simp
  have "bt_exec toolchain_world False (take 6 toolchain_sched) toolchain_start \<noteq> None"
    by code_simp
  then have e: "bt_exec toolchain_world False (take 6 toolchain_sched) toolchain_start
      = Some toolchain_mid"
    by (simp add: toolchain_mid_def)
  have v: "map bpc (bt_workers toolchain_mid) = [BT_Wait, BT_Acquire, BT_Acquire]"
    by code_simp
  show ?thesis
    using b e v toolchain_build_is_serial [OF b e]
    by simp
qed

subsection \<open>Draining the output in verbose mode\<close>

text \<open>
  Claim C9: in verbose mode \<open>BuildToolchain\<close> does not return, on any exit path, before
  the reader has drained the pipe to end of stream, which it learns from \<open>doneCh\<close>. In
  every state reachable with \<open>-verbose\<close>, a worker that is past the deferred function
  of lines 131 to 134, and so every worker whose \<open>BuildToolchain\<close> has returned, with
  or without an error, has a closed \<open>doneCh\<close>, an empty and closed pipe and a reader
  that has finished.
\<close>

theorem verbose_output_drained:
  assumes "mainBuildToolchain_begin W par pf True t0 = BT_Dispatch s0"
    and "bt_exec W True sched s0 = Some s"
    and "i < length (bt_workers s)"
    and "bpc (bt_workers s ! i)
           \<in> {BT_Release, BT_WgDone, BT_ErrLock, BT_ErrAppend, BT_ErrUnlock, BT_Exited}"
  shows "doneCh (bt_workers s ! i) \<and> pipe (bt_workers s ! i) = []
     \<and> w_closed (bt_workers s ! i) \<and> \<not> reading (bt_workers s ! i)"
proof -
  have "bt_inv True s"
    using bt_begin_inv(1) [OF assms(1)] assms(2) by (rule bt_inv_exec)
  then have wok: "bt_wok True (bt_workers s ! i)"
    using assms(3) by (simp add: bt_inv_def)
  have "doneCh (bt_workers s ! i)"
    using wok assms(4) unfolding bt_wok_def
    by (cases "bpc (bt_workers s ! i)") simp_all
  then have "bt_drained (bt_workers s ! i)"
    using wok unfolding bt_wok_def by blast
  then show ?thesis
    by (simp add: bt_drained_def)
qed

text \<open>Claim C9 at the end of the verbose example, for the worker whose script could not
  be started and for the one whose script exited with an error.\<close>

theorem verbose_output_drained_witness:
  "mainBuildToolchain_begin verbose_world 2 (platformFlag demo_flags) True []
       = BT_Dispatch verbose_start
   \<and> bt_exec verbose_world True verbose_sched verbose_start = Some verbose_end
   \<and> map bpc (bt_workers verbose_end) = [BT_Exited, BT_Exited, BT_Exited]
   \<and> map berr (bt_workers verbose_end) =
       [None,
        Some (Errorf (''Error building '' @ [CHR 0x27] @ ''linux/386'' @ [CHR 0x27]
           @ '': permission denied'')),
        Some (Errorf (''Error building '' @ [CHR 0x27] @ ''darwin/amd64'' @ [CHR 0x27]
           @ ''.\<newline>\<newline>Stdout: \<newline>\<newline>Stderr: boom\<newline>''))]
   \<and> 1 < length (bt_workers verbose_end)
   \<and> bpc (bt_workers verbose_end ! 1)
       \<in> {BT_Release, BT_WgDone, BT_ErrLock, BT_ErrAppend, BT_ErrUnlock, BT_Exited}
   \<and> doneCh (bt_workers verbose_end ! 1) \<and> pipe (bt_workers verbose_end ! 1) = []
   \<and> w_closed (bt_workers verbose_end ! 1) \<and> \<not> reading (bt_workers verbose_end ! 1)
   \<and> 2 < length (bt_workers verbose_end)
   \<and> bpc (bt_workers verbose_end ! 2)
       \<in> {BT_Release, BT_WgDone, BT_ErrLock, BT_ErrAppend, BT_ErrUnlock, BT_Exited}
   \<and> doneCh (bt_workers verbose_end ! 2) \<and> pipe (bt_workers verbose_end ! 2) = []
   \<and> w_closed (bt_workers verbose_end ! 2) \<and> \<not> reading (bt_workers verbose_end ! 2)"
proof -
  have b: "mainBuildToolchain_begin verbose_world 2 (platformFlag demo_flags) True []
      = BT_Dispatch verbose_start"
    by code_simp
  have "bt_exec verbose_world True verbose_sched verbose_start \<noteq> None"
    by code_simp
  then have e: "bt_exec verbose_world True verbose_sched verbose_start = Some verbose_end"
    by (simp add: verbose_end_def)
  have v: "map bpc (bt_workers verbose_end) = [BT_Exited, BT_Exited, BT_Exited]"
    by code_simp
  have r: "map berr (bt_workers verbose_end) =
       [None,
        Some (Errorf (''Error building '' @ [CHR 0x27] @ ''linux/386'' @ [CHR 0x27]
           @ '': permission denied'')),
        Some (Errorf (''Error building '' @ [CHR 0x27] @ ''darwin/amd64'' @ [CHR 0x27]
           @ ''.\<newline>\<newline>Stdout: \<newline>\<newline>Stderr: boom\<newline>''))]"
    by code_simp
  have l1: "1 < length (bt_workers verbose_end)" and l2: "2 < length (bt_workers verbose_end)"
    by code_simp+
  have p1: "bpc (bt_workers verbose_end ! 1)
       \<in> {BT_Release, BT_WgDone, BT_ErrLock, BT_ErrAppend, BT_ErrUnlock, BT_Exited}"
    and p2: "bpc (bt_workers verbose_end ! 2)
       \<in> {BT_Release, BT_WgDone, BT_ErrLock, BT_ErrAppend, BT_ErrUnlock, BT_Exited}"
    by code_simp+
  show ?thesis
    using b e v r l1 p1 l2 p2 verbose_output_drained [OF b e l1 p1]
      verbose_output_drained [OF b e l2 p2]
    by (intro conjI) simp_all
qed

subsection \<open>The version gate of the toolchain build\<close>

text \<open>
  Claim C10: \<open>mainBuildToolchain\<close> returns early, before it reads the version string,
  the root or the platforms and before it builds anything, exactly when the major part
  of the version is \<open>>= 1\<close> and the minor part is \<open>>= 5\<close>; for a minor part \<open>< 5\<close>, also
  with a major part \<open>>= 2\<close>, it goes on with the legacy build. With \<open>go\<close> on the path
  and a version of at least two parts: the call returns nil after the two calls
  \<open>LookPath\<close> and \<open>GoVersionParts\<close> and the message of lines 30 to 33 exactly in that
  case; in the other case, when the version string and the root can be read, it
  reaches the loop over the platforms of that version.
\<close>

theorem mainBuildToolchain_version_gate:
  assumes "LookPath W ''go'' = None" and "GoVersionParts W = Inr (major # minor # rest)"
  shows "(mainBuildToolchain_begin W par pf verb t0 =
            BT_Return None
              (t0 @ [Called ''LookPath'', Called ''GoVersionParts'', Stderr not_required_notice])
          \<longleftrightarrow> 1 \<le> major \<and> 5 \<le> minor)
     \<and> (\<not> (1 \<le> major \<and> 5 \<le> minor) \<longrightarrow>
          (\<forall>version root. GoVersion W = Inr version \<longrightarrow> GoRoot W = Inr root \<longrightarrow>
             (\<exists>s0. mainBuildToolchain_begin W par pf verb t0 = BT_Dispatch s0
                 \<and> bt_main s0 = BT_Loop (pf (SupportedPlatforms W version)))))"
  using assms unfolding mainBuildToolchain_begin_def version_gate_def Let_def
  by (auto split: sum.splits)

text \<open>Claim C10 for Go 1.5, which returns early, and for a Go 2.0, which does not.\<close>

theorem mainBuildToolchain_version_gate_witness:
  "LookPath go15_world ''go'' = None \<and> GoVersionParts go15_world = Inr [1, 5]
   \<and> mainBuildToolchain_begin go15_world 2 (platformFlag demo_flags) False [] =
       BT_Return None ([] @ [Called ''LookPath'', Called ''GoVersionParts'',
         Stderr not_required_notice])
   \<and> LookPath go20_world ''go'' = None \<and> GoVersionParts go20_world = Inr [2, 0]
   \<and> \<not> ((1::int) \<le> 2 \<and> (5::int) \<le> 0)
   \<and> GoVersion go20_world = Inr ''go1.4'' \<and> GoRoot go20_world = Inr ''/go''
   \<and> (\<exists>s0. mainBuildToolchain_begin go20_world 2 (platformFlag demo_flags) False []
              = BT_Dispatch s0
          \<and> bt_main s0 = BT_Loop (platformFlag demo_flags (SupportedPlatforms go20_world ''go1.4'')))"
proof -
  have h1: "LookPath go15_world ''go'' = None" "GoVersionParts go15_world = Inr [1, 5]"
    by (simp_all add: go15_world_def demo_world_def)
  have h2: "LookPath go20_world ''go'' = None" "GoVersionParts go20_world = Inr [2, 0]"
    "GoVersion go20_world = Inr ''go1.4''" "GoRoot go20_world = Inr ''/go''"
    by (simp_all add: go20_world_def demo_world_def)
  show ?thesis
    using h1 h2
      mainBuildToolchain_version_gate [OF h1, of 2 "platformFlag demo_flags" False "[]"]
      mainBuildToolchain_version_gate [OF h2(1,2), of 2 "platformFlag demo_flags" False "[]"]
    by simp
qed

end
